theory Spec2Isabelle
  imports Complex_Main "HOL-Library.AList"
begin

section \<open>Domain records (models.py)\<close>

text \<open>
  Python's \<open>str\<close> is a sequence of Unicode code points. The portal responses carry the
  byte-order mark U+FEFF, which a \<open>char\<close> cannot hold, so a \<open>str\<close> is modelled as the
  list of its code points.
\<close>

type_synonym ustr = "nat list"

record 'a SearchResult =
  items :: "'a list"
  total_count :: int
  page :: int
  page_size :: int
  has_next :: bool

text \<open>\<open>SearchResult.total_pages\<close>; Python's \<open>//\<close> is floor division, as \<open>div\<close> on \<open>int\<close> is.\<close>

definition total_pages :: "'a SearchResult \<Rightarrow> int" where
  "total_pages r =
     (if page_size r = 0 then 0
      else (total_count r + page_size r - 1) div page_size r)"

text \<open>\<open>SearchResult()\<close>: the dataclass defaults.\<close>

definition SearchResult_default :: "'a SearchResult" where
  "SearchResult_default =
     \<lparr>items = [], total_count = 0, page = 1, page_size = 10, has_next = False\<rparr>"

section \<open>Python strings\<close>

text \<open>A string literal of the source, as code points.\<close>

definition u :: "string \<Rightarrow> ustr" where
  "u s = map of_char s"

text \<open>The byte-order mark U+FEFF, written \<^verbatim>\<open>"\ufeff"\<close> in the source.\<close>

definition BOM :: nat where
  "BOM = 65279"

text \<open>
  The characters \<open>str.strip()\<close> removes and the regular-expression class
  \<^verbatim>\<open>\s\<close> matches on a \<open>str\<close>: CPython's Unicode whitespace table.
\<close>

definition isspace :: "nat \<Rightarrow> bool" where
  "isspace c \<longleftrightarrow>
     (9 \<le> c \<and> c \<le> 13) \<or> (28 \<le> c \<and> c \<le> 32) \<or> c = 133 \<or> c = 160 \<or> c = 5760
     \<or> (8192 \<le> c \<and> c \<le> 8202) \<or> c = 8232 \<or> c = 8233 \<or> c = 8239 \<or> c = 8287
     \<or> c = 12288"

definition lstrip_by :: "(nat \<Rightarrow> bool) \<Rightarrow> ustr \<Rightarrow> ustr" where
  "lstrip_by P s = dropWhile P s"

definition rstrip_by :: "(nat \<Rightarrow> bool) \<Rightarrow> ustr \<Rightarrow> ustr" where
  "rstrip_by P s = rev (dropWhile P (rev s))"

definition strip_by :: "(nat \<Rightarrow> bool) \<Rightarrow> ustr \<Rightarrow> ustr" where
  "strip_by P s = rstrip_by P (lstrip_by P s)"

text \<open>\<open>s.strip()\<close>, \<open>s.strip(chars)\<close> and \<open>s.lstrip(chars)\<close>.\<close>

definition str_strip :: "ustr \<Rightarrow> ustr" where
  "str_strip s = strip_by isspace s"

definition str_strip_chars :: "ustr \<Rightarrow> ustr \<Rightarrow> ustr" where
  "str_strip_chars chars s = strip_by (\<lambda>c. c \<in> set chars) s"

definition str_lstrip_chars :: "ustr \<Rightarrow> ustr \<Rightarrow> ustr" where
  "str_lstrip_chars chars s = lstrip_by (\<lambda>c. c \<in> set chars) s"

text \<open>\<open>s.startswith(p)\<close> and the substring test \<open>sub in s\<close>.\<close>

fun startswith :: "ustr \<Rightarrow> ustr \<Rightarrow> bool" where
  "startswith s [] = True"
| "startswith [] (p # ps) = False"
| "startswith (c # cs) (p # ps) = (c = p \<and> startswith cs ps)"

fun str_contains :: "ustr \<Rightarrow> ustr \<Rightarrow> bool" where
  "str_contains sub [] = (sub = [])"
| "str_contains sub (c # cs) = (startswith (c # cs) sub \<or> str_contains sub cs)"

text \<open>\<open>s.split(sep)\<close> for a separator of one character.\<close>

fun str_split :: "nat \<Rightarrow> ustr \<Rightarrow> ustr list" where
  "str_split sep [] = [[]]"
| "str_split sep (c # cs) =
     (if c = sep then [] # str_split sep cs
      else (case str_split sep cs of
              [] \<Rightarrow> [[c]]
            | piece # pieces \<Rightarrow> (c # piece) # pieces))"

text \<open>
  \<open>a, b = s.split(sep, 1)\<close> for a one-character separator that occurs in \<open>s\<close>: the text
  before the first separator and the text after it.
\<close>

definition str_split1 :: "nat \<Rightarrow> ustr \<Rightarrow> ustr \<times> ustr" where
  "str_split1 sep s = (takeWhile (\<lambda>c. c \<noteq> sep) s, tl (dropWhile (\<lambda>c. c \<noteq> sep) s))"

section \<open>Decoded JSON values\<close>

text \<open>
  A decoded JSON value, as \<open>json.loads\<close> returns it: \<open>None\<close>, \<open>bool\<close>, \<open>int\<close>,
  \<open>float\<close>, \<open>str\<close>, \<open>list\<close> and \<open>dict\<close> (an association list read by its first
  matching key).
\<close>

datatype pyfloat = Finite real | PosInf | NegInf | NaN

datatype json =
    JNull
  | JBool bool
  | JInt int
  | JFloat pyfloat
  | JStr ustr
  | JList "json list"
  | JObj "(ustr \<times> json) list"

section \<open>Rate-limited transport (http.py)\<close>

text \<open>\<open>BharatCourtsConfig\<close>: the fields the transport reads.\<close>

record config =
  request_delay :: real
  timeout :: int
  max_retries :: int

definition default_config :: config where
  "default_config = \<lparr>request_delay = 1, timeout = 30, max_retries = 3\<rparr>"

text \<open>What a request carries next to its method and URL (headers are left out).\<close>

datatype payload =
    NoPayload
  | FormData "(ustr \<times> ustr) list"
  | Content ustr
  | Params "(ustr \<times> json) list"

record http_request =
  r_method :: string
  r_url :: ustr
  r_payload :: payload

record response =
  status_code :: int
  resp_text :: ustr
  resp_content :: "nat list"

text \<open>
  The exceptions of one attempt. \<open>_request\<close> catches \<open>HTTPStatusError\<close>,
  \<open>ConnectError\<close> and \<open>ReadTimeout\<close>; anything else propagates at once.
\<close>

datatype exn =
    HTTPStatusError response
  | ConnectError
  | ReadTimeout
  | OtherException

definition retryable :: "exn \<Rightarrow> bool" where
  "retryable e \<longleftrightarrow> e \<noteq> OtherException"

text \<open>
  The outcome of the body of the \<open>try\<close>: \<open>client.request(method, url, ...)\<close> followed
  by \<open>resp.raise_for_status()\<close>.
\<close>

datatype outcome = Returned response | Raised exn

text \<open>
  The network: the outcome of the \<open>n\<close>-th request put on the wire, counted over the life
  of the client.
\<close>

type_synonym network = "nat \<Rightarrow> http_request \<Rightarrow> outcome"

datatype event = Slept real | Sent http_request

record world =
  issued :: nat
  trace :: "event list"

definition sleep :: "real \<Rightarrow> world \<Rightarrow> world" where
  "sleep d w = w\<lparr>trace := trace w @ [Slept d]\<rparr>"

definition send :: "network \<Rightarrow> http_request \<Rightarrow> world \<Rightarrow> outcome \<times> world" where
  "send net rq w = (net (issued w) rq, w\<lparr>issued := Suc (issued w), trace := trace w @ [Sent rq]\<rparr>)"

text \<open>The exceptions of the model. \<open>HttpError\<close> is an httpx exception that propagates
  unchanged; \<open>RuntimeError\<close> carries its \<open>__cause__\<close>.\<close>

datatype error =
    HttpError exn
  | RuntimeError "exn option"
  | CaptchaError ustr
  | ServerError json
  | JSONDecodeError
  | ValueError
  | TypeError
  | AttributeError
  | OverflowError

text \<open>
  The loop of \<open>RateLimitedClient._request\<close> over \<open>range(max_retries)\<close>, with the
  variable \<open>last_error\<close>. After the loop the \<open>RuntimeError\<close> is raised
  \<open>from last_error\<close>.
\<close>

fun request_attempts ::
  "config \<Rightarrow> network \<Rightarrow> http_request \<Rightarrow> nat list \<Rightarrow> exn option \<Rightarrow> world
     \<Rightarrow> (error + response) \<times> world" where
  "request_attempts cfg net rq [] last_error w = (Inl (RuntimeError last_error), w)"
| "request_attempts cfg net rq (attempt # rest) last_error w =
     (case send net rq w of
        (Returned resp, w1) \<Rightarrow> (Inr resp, w1)
      | (Raised e, w1) \<Rightarrow>
          if retryable e then
            (if int attempt = max_retries cfg - 1 then (Inl (HttpError e), w1)
             else request_attempts cfg net rq rest (Some e)
                    (sleep (real ((attempt + 1) * 2)) w1))
          else (Inl (HttpError e), w1))"

text \<open>\<open>RateLimitedClient._request\<close>, \<open>get\<close> and \<open>post\<close>.\<close>

definition request ::
  "config \<Rightarrow> network \<Rightarrow> http_request \<Rightarrow> world \<Rightarrow> (error + response) \<times> world" where
  "request cfg net rq w =
     request_attempts cfg net rq [0 ..< nat (max_retries cfg)] None
       (sleep (request_delay cfg) w)"

definition http_get ::
  "config \<Rightarrow> network \<Rightarrow> ustr \<Rightarrow> payload \<Rightarrow> world \<Rightarrow> (error + response) \<times> world" where
  "http_get cfg net url kw w =
     request cfg net \<lparr>r_method = ''GET'', r_url = url, r_payload = kw\<rparr> w"

definition http_post ::
  "config \<Rightarrow> network \<Rightarrow> ustr \<Rightarrow> payload \<Rightarrow> world \<Rightarrow> (error + response) \<times> world" where
  "http_post cfg net url kw w =
     request cfg net \<lparr>r_method = ''POST'', r_url = url, r_payload = kw\<rparr> w"

section \<open>Library functions outside the repository\<close>

text \<open>A \<open>datetime.date\<close>: year, month, day.\<close>

datatype date = Date int int int

text \<open>
  A parsed document as Beautiful Soup presents it: a tag with its name, its attributes
  and its children; a string of text (\<open>NavigableString\<close>, \<open>CData\<close>), which
  \<open>get_text\<close> returns; or a special string (\<open>Comment\<close>, \<open>Doctype\<close>, \<open>Declaration\<close>,
  \<open>ProcessingInstruction\<close>, and the contents of \<open>script\<close>, \<open>style\<close> and \<open>template\<close>),
  which the \<open>get_text\<close> of an enclosing element leaves out but which counts as a child
  and can be the \<open>string\<close> of its parent. (The parsers take the text of table cells,
  \<open>strong\<close> elements, links and the pagination \<open>div\<close> or \<open>span\<close> only, never of a
  \<open>script\<close>, \<open>style\<close> or \<open>template\<close> element itself.)
\<close>

datatype node = Tag ustr "(ustr \<times> ustr) list" "node list" | Str ustr | Special ustr

text \<open>
  The source calls functions of the Python standard library, of \<open>bs4\<close> and of \<open>lxml\<close>
  whose behaviour rests on tables and parsers that are not part of the repository. They
  are parameters of the model:
  \<^item> \<open>py_lower\<close>: \<open>str.lower()\<close>;
  \<^item> \<open>py_json_loads strict s\<close>: \<open>json.loads(s, strict=strict)\<close>, \<open>None\<close> for
    \<open>JSONDecodeError\<close>;
  \<^item> \<open>py_int_of_str\<close>: \<open>int(s)\<close> of a \<open>str\<close>, \<open>None\<close> for \<open>ValueError\<close>;
  \<^item> \<open>py_repr\<close>: \<open>str(x)\<close> of a decoded JSON value that is not a \<open>str\<close>;
  \<^item> \<open>py_strptime s fmt\<close>: \<open>datetime.strptime(s, fmt).date()\<close>, \<open>None\<close> for
    \<open>ValueError\<close>;
  \<^item> \<open>re_word\<close>: the characters the regular-expression class \<^verbatim>\<open>\w\<close> matches;
  \<^item> \<open>re_digit\<close>: the characters the regular-expression class \<^verbatim>\<open>\d\<close> matches;
  \<^item> \<open>bs4_parse\<close>: \<open>BeautifulSoup(html, "lxml")\<close>, the top-level nodes of the
    document.
\<close>

record pylib =
  py_lower :: "ustr \<Rightarrow> ustr"
  py_json_loads :: "bool \<Rightarrow> ustr \<Rightarrow> json option"
  py_int_of_str :: "ustr \<Rightarrow> int option"
  py_repr :: "json \<Rightarrow> ustr"
  py_strptime :: "ustr \<Rightarrow> ustr \<Rightarrow> date option"
  re_word :: "nat \<Rightarrow> bool"
  re_digit :: "nat \<Rightarrow> bool"
  bs4_parse :: "ustr \<Rightarrow> node list"

section \<open>Courts (models.py)\<close>

datatype CourtType = SUPREME_COURT | HIGH_COURT | DISTRICT_COURT | TRIBUNAL

record Court =
  c_name :: ustr
  c_code :: ustr
  state_code :: ustr
  court_type :: CourtType
  court_bench :: "ustr option"

section \<open>HC Services: endpoints and listings (hcservices/endpoints.py, hcservices/client.py)\<close>

definition hc_BASE_URL :: ustr where
  "hc_BASE_URL = u ''https://hcservices.ecourts.gov.in/hcservices''"

definition hc_MAIN_PAGE_URL :: ustr where
  "hc_MAIN_PAGE_URL = hc_BASE_URL @ u ''/main.php''"

definition hc_CAPTCHA_IMAGE_URL :: ustr where
  "hc_CAPTCHA_IMAGE_URL = hc_BASE_URL @ u ''/securimage/securimage_show.php''"

definition hc_INDEX_QRY_URL :: ustr where
  "hc_INDEX_QRY_URL = hc_BASE_URL @ u ''/cases_qry/index_qry.php''"

definition hc_SHOW_RECORDS_URL :: ustr where
  "hc_SHOW_RECORDS_URL = hc_INDEX_QRY_URL @ u ''?action_code=showRecords''"

definition hc_FILL_CASE_TYPE_URL :: ustr where
  "hc_FILL_CASE_TYPE_URL = hc_INDEX_QRY_URL @ u ''?action_code=fillCaseType''"

definition fill_bench_form :: "ustr \<Rightarrow> (ustr \<times> ustr) list" where
  "fill_bench_form sc =
     [(u ''action_code'', u ''fillHCBench''), (u ''state_code'', sc), (u ''appFlag'', u ''web'')]"

definition fill_case_type_form :: "ustr \<Rightarrow> ustr \<Rightarrow> (ustr \<times> ustr) list" where
  "fill_case_type_form sc cc = [(u ''court_code'', cc), (u ''state_code'', sc)]"

text \<open>\<open>HCServicesClient._init_session\<close>: load the main page; the response is only logged.\<close>

definition hc_init_session :: "config \<Rightarrow> network \<Rightarrow> world \<Rightarrow> (error + unit) \<times> world" where
  "hc_init_session cfg net w =
     (case http_get cfg net hc_MAIN_PAGE_URL NoPayload w of
        (Inl e, w1) \<Rightarrow> (Inl e, w1)
      | (Inr resp, w1) \<Rightarrow> (Inr (), w1))"

text \<open>
  A \<open>dict\<close> with \<open>str\<close> keys is an association list in insertion order; \<open>d[k] = v\<close> is
  \<open>AList.update k v d\<close>, which replaces the value of a key already present and appends a
  new key at the end.
\<close>

type_synonym str_dict = "(ustr \<times> ustr) list"

text \<open>
  The body of the loop of \<open>list_benches\<close> for one entry: the entry to store, if any.
\<close>

definition bench_entry :: "pylib \<Rightarrow> ustr \<Rightarrow> (ustr \<times> ustr) option" where
  "bench_entry L entry0 =
     (let entry = str_strip entry0 in
      if 126 \<in> set entry then
        (case str_split1 126 entry of (code0, name0) \<Rightarrow>
           let code = str_strip_chars [BOM] (str_strip code0);
               name = str_strip_chars [BOM] (str_strip name0)
           in if code \<noteq> [] \<and> code \<noteq> u ''0'' \<and> name \<noteq> []
                 \<and> \<not> str_contains (u ''select'') (py_lower L name)
              then Some (code, name) else None)
      else None)"

fun benches_loop :: "pylib \<Rightarrow> ustr list \<Rightarrow> str_dict \<Rightarrow> str_dict" where
  "benches_loop L [] benches = benches"
| "benches_loop L (entry # entries) benches =
     (case bench_entry L entry of
        Some (code, name) \<Rightarrow> benches_loop L entries (AList.update code name benches)
      | None \<Rightarrow> benches_loop L entries benches)"

definition list_benches ::
  "pylib \<Rightarrow> config \<Rightarrow> network \<Rightarrow> Court \<Rightarrow> world \<Rightarrow> (error + str_dict) \<times> world" where
  "list_benches L cfg net court w =
     (case hc_init_session cfg net w of
        (Inl e, w1) \<Rightarrow> (Inl e, w1)
      | (Inr _, w1) \<Rightarrow>
          (case http_post cfg net hc_INDEX_QRY_URL
                  (FormData (fill_bench_form (state_code court))) w1 of
             (Inl e, w2) \<Rightarrow> (Inl e, w2)
           | (Inr resp, w2) \<Rightarrow> (Inr (benches_loop L (str_split 35 (resp_text resp)) []), w2)))"

text \<open>The body of the loop of \<open>list_case_types\<close> for one entry.\<close>

definition case_type_entry :: "pylib \<Rightarrow> ustr \<Rightarrow> (ustr \<times> ustr) option" where
  "case_type_entry L entry0 =
     (let entry = str_strip_chars [BOM] (str_strip entry0) in
      if 126 \<in> set entry then
        (case str_split1 126 entry of (code0, name0) \<Rightarrow>
           let code = str_strip code0;
               name = str_strip name0
           in if code \<noteq> [] \<and> code \<noteq> u ''0'' \<and> name \<noteq> []
                 \<and> \<not> str_contains (u ''select'') (py_lower L name)
              then Some (code, name) else None)
      else None)"

fun case_types_loop :: "pylib \<Rightarrow> ustr list \<Rightarrow> str_dict \<Rightarrow> str_dict" where
  "case_types_loop L [] case_types = case_types"
| "case_types_loop L (entry # entries) case_types =
     (case case_type_entry L entry of
        Some (code, name) \<Rightarrow> case_types_loop L entries (AList.update code name case_types)
      | None \<Rightarrow> case_types_loop L entries case_types)"

definition list_case_types ::
  "pylib \<Rightarrow> config \<Rightarrow> network \<Rightarrow> Court \<Rightarrow> ustr \<Rightarrow> world \<Rightarrow> (error + str_dict) \<times> world" where
  "list_case_types L cfg net court bench_code w =
     (case hc_init_session cfg net w of
        (Inl e, w1) \<Rightarrow> (Inl e, w1)
      | (Inr _, w1) \<Rightarrow>
          (case http_post cfg net hc_FILL_CASE_TYPE_URL
                  (FormData (fill_case_type_form (state_code court) bench_code)) w1 of
             (Inl e, w2) \<Rightarrow> (Inl e, w2)
           | (Inr resp, w2) \<Rightarrow>
               (Inr (case_types_loop L (str_split 35 (resp_text resp)) []), w2)))"

section \<open>Records produced by the parsers (models.py)\<close>

text \<open>
  A dataclass does not check the types of its fields. The fields of \<open>CaseInfo\<close> that
  \<open>parse_case_status\<close> fills with values taken as they are from the decoded JSON hold a
  \<open>json\<close> value; a \<open>str\<close> is \<open>JStr\<close>.
\<close>

record CaseInfo =
  case_number :: ustr
  case_type :: ustr
  cnr_number :: json
  filing_number :: json
  registration_number :: ustr
  registration_date :: "date option"
  petitioner :: json
  respondent :: json
  status :: json
  court_name :: ustr
  judges :: "ustr list"
  next_hearing_date :: "date option"

record CaseOrder =
  order_date :: date
  order_type :: ustr
  judge :: ustr
  pdf_url :: ustr
  pdf_bytes :: "nat list option"
  order_text :: ustr

record CauseListPDF =
  serial_number :: int
  bench :: ustr
  cause_list_type :: ustr
  cl_pdf_url :: ustr
  cl_pdf_bytes :: "nat list option"

record JudgmentResult =
  title :: ustr
  j_court_name :: ustr
  j_case_number :: ustr
  judgment_date :: "date option"
  j_judges :: "ustr list"
  j_pdf_url :: ustr
  j_pdf_bytes :: "nat list option"
  citation :: ustr
  bench_type :: ustr
  source_url :: ustr
  source_id :: ustr
  metadata :: "(ustr \<times> json) list"

section \<open>Beautiful Soup operations used by the parsers\<close>

text \<open>The nodes below a node, and below a list of nodes, in document order.\<close>

fun descendants :: "node \<Rightarrow> node list"
  and descendants_list :: "node list \<Rightarrow> node list" where
  "descendants (Tag n attrs cs) = descendants_list cs"
| "descendants (Str s) = []"
| "descendants (Special s) = []"
| "descendants_list [] = []"
| "descendants_list (c # cs) = c # descendants c @ descendants_list cs"

text \<open>\<open>tag.get_text()\<close>: the strings of text below the node, joined; special strings are
  left out.\<close>

fun get_text :: "node \<Rightarrow> ustr"
  and get_text_list :: "node list \<Rightarrow> ustr" where
  "get_text (Tag n attrs cs) = get_text_list cs"
| "get_text (Str s) = s"
| "get_text (Special s) = []"
| "get_text_list [] = []"
| "get_text_list (c # cs) = get_text c @ get_text_list cs"

text \<open>
  \<open>tag.string\<close>: the single string of a tag whose only child is a string (of text or
  special), or whose only child is a tag that has such a string; \<open>None\<close> for a tag with no
  child or with more than one, so also for a tag that holds a comment beside its text.
\<close>

fun node_string :: "node \<Rightarrow> ustr option" where
  "node_string (Str s) = Some s"
| "node_string (Special s) = Some s"
| "node_string (Tag n attrs [c]) = node_string c"
| "node_string (Tag n attrs cs) = None"

definition is_tag :: "ustr \<Rightarrow> node \<Rightarrow> bool" where
  "is_tag nm x = (case x of Tag n attrs cs \<Rightarrow> n = nm | Str s \<Rightarrow> False | Special s \<Rightarrow> False)"

text \<open>\<open>tag.get(key)\<close>.\<close>

definition get_attr :: "node \<Rightarrow> ustr \<Rightarrow> ustr option" where
  "get_attr x key =
     (case x of Tag n attrs cs \<Rightarrow> map_of attrs key | Str s \<Rightarrow> None | Special s \<Rightarrow> None)"

text \<open>The class names of a \<open>class\<close> attribute: its maximal runs of non-whitespace.\<close>

function class_tokens :: "ustr \<Rightarrow> ustr list" where
  "class_tokens s =
     (case dropWhile isspace s of
        [] \<Rightarrow> []
      | c # cs \<Rightarrow> takeWhile (\<lambda>x. \<not> isspace x) (c # cs)
                    # class_tokens (dropWhile (\<lambda>x. \<not> isspace x) cs))"
  by pat_completeness auto
termination
proof (relation "measure length")
  show "wf (measure length)" by simp
next
  fix s :: ustr and c cs
  assume "dropWhile isspace s = c # cs"
  then have "length s \<ge> Suc (length cs)"
    using length_dropWhile_le [of isspace s] by simp
  moreover have "length (dropWhile (\<lambda>x. \<not> isspace x) cs) \<le> length cs"
    by (rule length_dropWhile_le)
  ultimately show "(dropWhile (\<lambda>x. \<not> isspace x) cs, s) \<in> measure length" by simp
qed

definition has_class :: "ustr \<Rightarrow> node \<Rightarrow> bool" where
  "has_class cls x =
     (case get_attr x (u ''class'') of None \<Rightarrow> False | Some v \<Rightarrow> cls \<in> set (class_tokens v))"

definition has_id :: "ustr \<Rightarrow> node \<Rightarrow> bool" where
  "has_id i x = (get_attr x (u ''id'') = Some i)"

text \<open>
  \<open>find_all(name)\<close> and \<open>find(name, ...)\<close> below a tag, and on the whole document:
  \<open>find\<close> returns the first match in document order, or \<open>None\<close>.
\<close>

definition find_all :: "ustr \<Rightarrow> node \<Rightarrow> node list" where
  "find_all nm x = filter (is_tag nm) (descendants x)"

definition first_where :: "(node \<Rightarrow> bool) \<Rightarrow> node list \<Rightarrow> node option" where
  "first_where P xs = (case filter P xs of [] \<Rightarrow> None | x # _ \<Rightarrow> Some x)"

definition find_tag :: "ustr \<Rightarrow> node \<Rightarrow> node option" where
  "find_tag nm x = first_where (is_tag nm) (descendants x)"

definition soup_find :: "ustr \<Rightarrow> node list \<Rightarrow> node option" where
  "soup_find nm doc = first_where (is_tag nm) (descendants_list doc)"

definition soup_find_where :: "ustr \<Rightarrow> (node \<Rightarrow> bool) \<Rightarrow> node list \<Rightarrow> node option" where
  "soup_find_where nm P doc = first_where (\<lambda>x. is_tag nm x \<and> P x) (descendants_list doc)"

text \<open>\<open>a or b\<close> on the results of two \<open>find\<close> calls: a tag is always true.\<close>

definition or_else :: "'a option \<Rightarrow> 'a option \<Rightarrow> 'a option" where
  "or_else a b = (case a of Some x \<Rightarrow> Some x | None \<Rightarrow> b)"

section \<open>HC Services parsers (hcservices/parser.py)\<close>

definition DATE_FORMAT :: ustr where
  "DATE_FORMAT = u ''%d-%m-%Y''"

text \<open>\<open>_parse_date\<close>: \<open>None\<close> for an empty or unparseable text.\<close>

definition parse_date :: "pylib \<Rightarrow> ustr \<Rightarrow> date option" where
  "parse_date L text0 =
     (let t = str_strip text0 in
      if t = [] then None else py_strptime L t DATE_FORMAT)"

text \<open>\<^verbatim>\<open>re.sub(r"\s+", " ", s)\<close>: every run of whitespace becomes one space.\<close>

function collapse_ws :: "ustr \<Rightarrow> ustr" where
  "collapse_ws [] = []"
| "collapse_ws (c # cs) =
     (if isspace c then 32 # collapse_ws (dropWhile isspace cs) else c # collapse_ws cs)"
  by pat_completeness auto
termination
  by (relation "measure length") (auto simp: less_Suc_eq_le length_dropWhile_le)

text \<open>\<open>_clean_text\<close> of a \<open>str\<close>.\<close>

definition clean_text :: "ustr \<Rightarrow> ustr" where
  "clean_text t = (if t = [] then [] else collapse_ws (str_strip t))"

text \<open>
  The regular expression \<^verbatim>\<open>\bvs?\b\<close> under \<open>re.IGNORECASE\<close>. A word boundary lies
  between two positions of which exactly one holds a word character; the positions before
  the start and after the end hold none. Ignoring case, \<open>v\<close> matches \<open>v\<close> and \<open>V\<close>, and
  \<open>s\<close> matches \<open>s\<close>, \<open>S\<close> and the long s U+017F.
\<close>

definition word_at :: "pylib \<Rightarrow> nat option \<Rightarrow> bool" where
  "word_at L c = (case c of None \<Rightarrow> False | Some x \<Rightarrow> re_word L x)"

definition boundary :: "pylib \<Rightarrow> nat option \<Rightarrow> nat option \<Rightarrow> bool" where
  "boundary L prev nxt \<longleftrightarrow> word_at L prev \<noteq> word_at L nxt"

definition next_char :: "ustr \<Rightarrow> nat option" where
  "next_char s = (case s of [] \<Rightarrow> None | c # _ \<Rightarrow> Some c)"

definition is_v :: "nat \<Rightarrow> bool" where
  "is_v c \<longleftrightarrow> c = 118 \<or> c = 86"

definition is_s :: "nat \<Rightarrow> bool" where
  "is_s c \<longleftrightarrow> c = 115 \<or> c = 83 \<or> c = 383"

text \<open>
  The length of the match of \<^verbatim>\<open>\bvs?\b\<close> that starts at the head of \<open>s\<close>, when there
  is one; \<open>prev\<close> is the character before it. The optional \<open>s\<close> is tried first.
\<close>

definition vs_match :: "pylib \<Rightarrow> nat option \<Rightarrow> ustr \<Rightarrow> nat option" where
  "vs_match L prev s =
     (case s of
        [] \<Rightarrow> None
      | c # r \<Rightarrow>
          if is_v c \<and> boundary L prev (Some c) then
            (case r of
               [] \<Rightarrow> if boundary L (Some c) None then Some 1 else None
             | c2 # r2 \<Rightarrow>
                 if is_s c2 \<and> boundary L (Some c2) (next_char r2) then Some 2
                 else if boundary L (Some c) (Some c2) then Some 1
                 else None)
          else None)"

text \<open>
  \<open>re.split(pattern, text, maxsplit=1)\<close> for that pattern: the text before and after the
  leftmost match, or \<open>None\<close> when nothing matches (the result then has one part).
\<close>

fun vs_split :: "pylib \<Rightarrow> nat option \<Rightarrow> ustr \<Rightarrow> (ustr \<times> ustr) option" where
  "vs_split L prev [] = None"
| "vs_split L prev (c # cs) =
     (case vs_match L prev (c # cs) of
        Some n \<Rightarrow> Some ([], drop n (c # cs))
      | None \<Rightarrow>
          (case vs_split L (Some c) cs of
             None \<Rightarrow> None
           | Some (a, b) \<Rightarrow> Some (c # a, b)))"

text \<open>
  What the pattern describes, stated on the text: \<open>t\<close> is \<open>a\<close>, then the word \<open>v\<close> or
  \<open>vs\<close> in either case, then \<open>b\<close>, with a word boundary on both sides of the word.
\<close>

definition vs_word :: "ustr \<Rightarrow> bool" where
  "vs_word sep =
     (case sep of
        [x] \<Rightarrow> is_v x
      | [x, y] \<Rightarrow> is_v x \<and> is_s y
      | _ \<Rightarrow> False)"

definition last_char :: "ustr \<Rightarrow> nat option" where
  "last_char s = (if s = [] then None else Some (last s))"

definition whole_word_split :: "pylib \<Rightarrow> ustr \<Rightarrow> ustr \<Rightarrow> ustr \<Rightarrow> ustr \<Rightarrow> bool" where
  "whole_word_split L t a sep b \<longleftrightarrow>
     t = a @ sep @ b \<and> vs_word sep
     \<and> boundary L (last_char a) (next_char sep)
     \<and> boundary L (last_char sep) (next_char b)"

text \<open>The same for a text that follows the character \<open>prev\<close>.\<close>

definition split_after :: "pylib \<Rightarrow> nat option \<Rightarrow> ustr \<Rightarrow> ustr \<Rightarrow> ustr \<Rightarrow> ustr \<Rightarrow> bool" where
  "split_after L prev t a sep b \<longleftrightarrow>
     t = a @ sep @ b \<and> vs_word sep
     \<and> boundary L (if a = [] then prev else Some (last a)) (next_char sep)
     \<and> boundary L (last_char sep) (next_char b)"

text \<open>\<open>_extract_parties\<close>.\<close>

definition extract_parties :: "pylib \<Rightarrow> node \<Rightarrow> ustr \<times> ustr" where
  "extract_parties L cell =
     (let strongs = find_all (u ''strong'') cell in
      if length strongs \<ge> 2 then
        (clean_text (get_text (strongs ! 0)), clean_text (get_text (strongs ! 1)))
      else
        (let t = clean_text (get_text cell) in
         case vs_split L None t of
           Some (a, b) \<Rightarrow> (str_strip a, str_strip b)
         | None \<Rightarrow> (t, [])))"

text \<open>Decimal digits of a number, and \<open>date.isoformat()\<close>.\<close>

function str_of_nat :: "nat \<Rightarrow> ustr" where
  "str_of_nat n = (if n < 10 then [48 + n] else str_of_nat (n div 10) @ [48 + n mod 10])"
  by pat_completeness auto
termination
  by (relation "measure id") auto

definition str_of_int :: "int \<Rightarrow> ustr" where
  "str_of_int i = (if i < 0 then 45 # str_of_nat (nat (- i)) else str_of_nat (nat i))"

definition zero_pad :: "nat \<Rightarrow> int \<Rightarrow> ustr" where
  "zero_pad width i =
     (let ds = str_of_nat (nat i) in replicate (width - length ds) 48 @ ds)"

definition isoformat :: "date \<Rightarrow> ustr" where
  "isoformat dt =
     (case dt of Date y m d \<Rightarrow> zero_pad 4 y @ [45] @ zero_pad 2 m @ [45] @ zero_pad 2 d)"

text \<open>The table rows after the header row: \<open>table.find_all("tr")[1:]\<close>.\<close>

definition data_rows :: "node \<Rightarrow> node list" where
  "data_rows table = drop 1 (find_all (u ''tr'') table)"

text \<open>The body of the loop of \<open>_parse_case_status_html\<close> for one row.\<close>

definition case_status_row :: "pylib \<Rightarrow> node \<Rightarrow> CaseInfo option" where
  "case_status_row L row =
     (let cols = find_all (u ''td'') row in
      if length cols < 4 then None
      else
        (let cn = clean_text (get_text (cols ! 1));
             (pet, res) = extract_parties L (cols ! 2);
             filing_date = (if length cols > 4 then parse_date L (get_text (cols ! 4)) else None);
             reg_date = (if length cols > 5 then parse_date L (get_text (cols ! 5)) else None);
             st = (if length cols > 6 then clean_text (get_text (cols ! 6)) else [])
         in Some \<lparr>case_number = cn,
                  case_type = (if 47 \<in> set cn then hd (str_split 47 cn) else []),
                  cnr_number = JStr [],
                  filing_number =
                    JStr (case filing_date of Some fd \<Rightarrow> isoformat fd | None \<Rightarrow> []),
                  registration_number = [],
                  registration_date = reg_date,
                  petitioner = JStr pet,
                  respondent = JStr res,
                  status = JStr st,
                  court_name = [],
                  judges = [],
                  next_hearing_date = None\<rparr>))"

fun case_status_rows :: "pylib \<Rightarrow> node list \<Rightarrow> CaseInfo list \<Rightarrow> CaseInfo list" where
  "case_status_rows L [] results = results"
| "case_status_rows L (row # rows) results =
     (case case_status_row L row of
        None \<Rightarrow> case_status_rows L rows results
      | Some r \<Rightarrow> case_status_rows L rows (results @ [r]))"

text \<open>\<open>_parse_case_status_html\<close>.\<close>

definition parse_case_status_html :: "pylib \<Rightarrow> ustr \<Rightarrow> CaseInfo list" where
  "parse_case_status_html L html =
     (let soup = bs4_parse L html in
      case soup_find (u ''table'') soup of
        None \<Rightarrow> []
      | Some table \<Rightarrow> case_status_rows L (data_rows table) [])"

text \<open>
  The PDF link of \<open>parse_orders\<close>: the \<open>href\<close> of the first anchor of the cell, made
  absolute when it starts with a slash.
\<close>

definition order_pdf_url :: "node \<Rightarrow> ustr \<Rightarrow> ustr" where
  "order_pdf_url cell base_url =
     (case find_tag (u ''a'') cell of
        None \<Rightarrow> []
      | Some link \<Rightarrow>
          (case get_attr link (u ''href'') of
             None \<Rightarrow> []
           | Some href \<Rightarrow>
               if href = [] then []
               else if startswith href (u ''/'') then base_url @ href
               else href))"

text \<open>The body of the loop of \<open>parse_orders\<close> for one row.\<close>

definition order_row :: "pylib \<Rightarrow> ustr \<Rightarrow> node \<Rightarrow> CaseOrder option" where
  "order_row L base_url row =
     (let cols = find_all (u ''td'') row in
      if length cols < 5 then None
      else
        (case parse_date L (get_text (cols ! 1)) of
           None \<Rightarrow> None
         | Some od \<Rightarrow>
             Some \<lparr>order_date = od,
                   order_type = clean_text (get_text (cols ! 2)),
                   judge = clean_text (get_text (cols ! 3)),
                   pdf_url = order_pdf_url (cols ! 4) base_url,
                   pdf_bytes = None,
                   order_text = []\<rparr>))"

fun order_rows :: "pylib \<Rightarrow> ustr \<Rightarrow> node list \<Rightarrow> CaseOrder list \<Rightarrow> CaseOrder list" where
  "order_rows L base_url [] results = results"
| "order_rows L base_url (row # rows) results =
     (case order_row L base_url row of
        None \<Rightarrow> order_rows L base_url rows results
      | Some r \<Rightarrow> order_rows L base_url rows (results @ [r]))"

text \<open>\<open>parse_orders\<close>.\<close>

definition parse_orders :: "pylib \<Rightarrow> ustr \<Rightarrow> ustr \<Rightarrow> CaseOrder list" where
  "parse_orders L html base_url =
     (let soup = bs4_parse L html in
      case or_else (soup_find_where (u ''table'') (has_id (u ''orderTable'')) soup)
                   (soup_find (u ''table'') soup) of
        None \<Rightarrow> []
      | Some table \<Rightarrow> order_rows L base_url (data_rows table) [])"

text \<open>The PDF link of \<open>parse_cause_list\<close>.\<close>

definition cause_list_pdf_url :: "node \<Rightarrow> ustr \<Rightarrow> ustr" where
  "cause_list_pdf_url cell base_url =
     (case find_tag (u ''a'') cell of
        None \<Rightarrow> []
      | Some link \<Rightarrow>
          (case get_attr link (u ''href'') of
             None \<Rightarrow> []
           | Some href0 \<Rightarrow>
               if href0 = [] then []
               else
                 (let href = str_strip href0 in
                  if startswith href (u ''http'') then href
                  else if base_url \<noteq> [] then base_url @ u ''/cases_qry/'' @ href
                  else href)))"

definition cause_list_row :: "pylib \<Rightarrow> ustr \<Rightarrow> node \<Rightarrow> CauseListPDF option" where
  "cause_list_row L base_url row =
     (let cols = find_all (u ''td'') row in
      if length cols < 4 then None
      else
        (let serial = clean_text (get_text (cols ! 0)) in
         Some \<lparr>serial_number = (case py_int_of_str L serial of Some n \<Rightarrow> n | None \<Rightarrow> 0),
               bench = clean_text (get_text (cols ! 1)),
               cause_list_type = clean_text (get_text (cols ! 2)),
               cl_pdf_url = cause_list_pdf_url (cols ! 3) base_url,
               cl_pdf_bytes = None\<rparr>))"

fun cause_list_rows ::
  "pylib \<Rightarrow> ustr \<Rightarrow> node list \<Rightarrow> CauseListPDF list \<Rightarrow> CauseListPDF list" where
  "cause_list_rows L base_url [] results = results"
| "cause_list_rows L base_url (row # rows) results =
     (case cause_list_row L base_url row of
        None \<Rightarrow> cause_list_rows L base_url rows results
      | Some r \<Rightarrow> cause_list_rows L base_url rows (results @ [r]))"

text \<open>\<open>parse_cause_list\<close>.\<close>

definition parse_cause_list :: "pylib \<Rightarrow> ustr \<Rightarrow> ustr \<Rightarrow> CauseListPDF list" where
  "parse_cause_list L html base_url =
     (let soup = bs4_parse L html in
      case or_else (soup_find_where (u ''table'') (has_class (u ''causelistTbl'')) soup)
                   (soup_find (u ''table'') soup) of
        None \<Rightarrow> []
      | Some table \<Rightarrow> cause_list_rows L base_url (data_rows table) [])"

section \<open>The JSON envelope of showRecords (hcservices/parser.py)\<close>

text \<open>\<open>d.get(key)\<close> and \<open>d.get(key, default)\<close> on a decoded object.\<close>

definition dict_get :: "(ustr \<times> json) list \<Rightarrow> ustr \<Rightarrow> json" where
  "dict_get d key = (case map_of d key of None \<Rightarrow> JNull | Some v \<Rightarrow> v)"

definition dict_get_default :: "(ustr \<times> json) list \<Rightarrow> ustr \<Rightarrow> json \<Rightarrow> json" where
  "dict_get_default d key dflt = (case map_of d key of None \<Rightarrow> dflt | Some v \<Rightarrow> v)"

text \<open>The truth value of a decoded JSON value.\<close>

fun truthy :: "json \<Rightarrow> bool" where
  "truthy JNull = False"
| "truthy (JBool b) = b"
| "truthy (JInt n) = (n \<noteq> 0)"
| "truthy (JFloat f) = (f \<noteq> Finite 0)"
| "truthy (JStr s) = (s \<noteq> [])"
| "truthy (JList xs) = (xs \<noteq> [])"
| "truthy (JObj d) = (d \<noteq> [])"

text \<open>\<open>a or b\<close> on values.\<close>

definition py_or :: "json \<Rightarrow> json \<Rightarrow> json" where
  "py_or a b = (if truthy a then a else b)"

text \<open>\<open>int(x)\<close> and \<open>str(x)\<close> of a decoded JSON value.\<close>

fun py_int :: "pylib \<Rightarrow> json \<Rightarrow> error + int" where
  "py_int L JNull = Inl TypeError"
| "py_int L (JBool b) = Inr (if b then 1 else 0)"
| "py_int L (JInt n) = Inr n"
| "py_int L (JFloat (Finite r)) = Inr (if 0 \<le> r then \<lfloor>r\<rfloor> else \<lceil>r\<rceil>)"
| "py_int L (JFloat NaN) = Inl ValueError"
| "py_int L (JFloat PosInf) = Inl OverflowError"
| "py_int L (JFloat NegInf) = Inl OverflowError"
| "py_int L (JStr s) = (case py_int_of_str L s of None \<Rightarrow> Inl ValueError | Some n \<Rightarrow> Inr n)"
| "py_int L (JList xs) = Inl TypeError"
| "py_int L (JObj d) = Inl TypeError"

definition py_str :: "pylib \<Rightarrow> json \<Rightarrow> ustr" where
  "py_str L v = (case v of JStr s \<Rightarrow> s | _ \<Rightarrow> py_repr L v)"

text \<open>
  The two calls of \<open>json.loads\<close> on the outer text: strictly, and on
  \<open>JSONDecodeError\<close> once more with \<open>strict=False\<close>, whose error propagates.
\<close>

definition loads_lenient :: "pylib \<Rightarrow> ustr \<Rightarrow> error + json" where
  "loads_lenient L t =
     (case py_json_loads L True t of
        Some data \<Rightarrow> Inr data
      | None \<Rightarrow>
          (case py_json_loads L False t of
             Some data \<Rightarrow> Inr data
           | None \<Rightarrow> Inl JSONDecodeError))"

text \<open>
  The records of a non-empty \<open>con\<close> list, from its first element: a string is decoded
  again, an object stands for itself.
\<close>

definition inner_records :: "pylib \<Rightarrow> json \<Rightarrow> json list" where
  "inner_records L inner =
     (case inner of
        JStr s \<Rightarrow>
          (case py_json_loads L False s of
             None \<Rightarrow> []
           | Some (JList records) \<Rightarrow> records
           | Some _ \<Rightarrow> [])
      | JObj d \<Rightarrow> [JObj d]
      | _ \<Rightarrow> [])"

text \<open>
  \<open>_parse_json_envelope\<close>. \<open>envelope_records\<close> is the part of it after the check for a
  rejected captcha: the \<open>Error\<close> field, \<open>totRecords\<close> and the records of \<open>con\<close>.
\<close>

definition envelope_records ::
  "pylib \<Rightarrow> (ustr \<times> json) list \<Rightarrow> error + (json list \<times> int)" where
  "envelope_records L data =
     (let err = dict_get_default data (u ''Error'') (JStr []) in
      if truthy err \<and> err \<noteq> JStr [] then Inl (ServerError err)
      else
        (let con = dict_get data (u ''con'') in
         case py_int L (dict_get_default data (u ''totRecords'') (JInt 0)) of
           Inl e \<Rightarrow> Inl e
         | Inr tot \<Rightarrow>
             (case con of
                JList (inner # _) \<Rightarrow> Inr (inner_records L inner, tot)
              | _ \<Rightarrow> Inr ([], tot))))"

definition parse_json_envelope :: "pylib \<Rightarrow> ustr \<Rightarrow> error + (json list \<times> int)" where
  \<open>parse_json_envelope L raw =
     (let t = str_lstrip_chars [BOM] (str_strip raw) in
      if startswith t (u ''{'') then
        (case loads_lenient L t of
           Inl e \<Rightarrow> Inl e
         | Inr (JObj data) \<Rightarrow>
             (case dict_get data (u ''con'') of
                JStr c \<Rightarrow>
                  if str_contains (u ''captcha'') (py_lower L c) then Inl (CaptchaError c)
                  else envelope_records L data
              | _ \<Rightarrow> envelope_records L data)
         | Inr _ \<Rightarrow> Inl AttributeError)
      else Inr ([], 0))\<close>

text \<open>
  \<open>parse_case_status\<close>. A record that is not an object has no \<open>get\<close>
  (\<open>AttributeError\<close>), and so has a \<open>reg_date\<close> that is not a \<open>str\<close> no \<open>strip\<close>.
\<close>

definition case_info_of_record :: "pylib \<Rightarrow> json \<Rightarrow> error + CaseInfo" where
  "case_info_of_record L rec =
     (case rec of
        JObj d \<Rightarrow>
          (let case_type_code = py_str L (dict_get_default d (u ''case_type'') (JStr []));
               case_no = py_str L (dict_get_default d (u ''case_no2'') (JStr []));
               case_year = py_str L (dict_get_default d (u ''case_year'') (JStr []));
               case_number_display =
                 (if case_no \<noteq> [] \<and> case_year \<noteq> [] then case_no @ u ''/'' @ case_year
                  else [])
           in case dict_get_default d (u ''reg_date'') (JStr []) of
                JStr rd \<Rightarrow>
                  Inr \<lparr>case_number = case_number_display,
                       case_type = case_type_code,
                       cnr_number = dict_get_default d (u ''cino'') (JStr []),
                       filing_number = dict_get_default d (u ''case_no'') (JStr []),
                       registration_number = [],
                       registration_date = parse_date L rd,
                       petitioner = py_or (dict_get d (u ''pet_name'')) (JStr []),
                       respondent = py_or (dict_get d (u ''res_name'')) (JStr []),
                       status =
                         py_or (py_or (dict_get d (u ''status_name'')) (dict_get d (u ''status'')))
                           (JStr []),
                       court_name = [],
                       judges = [],
                       next_hearing_date = None\<rparr>
              | _ \<Rightarrow> Inl AttributeError)
      | _ \<Rightarrow> Inl AttributeError)"

fun case_status_records :: "pylib \<Rightarrow> json list \<Rightarrow> CaseInfo list \<Rightarrow> error + CaseInfo list" where
  "case_status_records L [] results = Inr results"
| "case_status_records L (rec # recs) results =
     (case case_info_of_record L rec of
        Inl e \<Rightarrow> Inl e
      | Inr r \<Rightarrow> case_status_records L recs (results @ [r]))"

definition parse_case_status :: "pylib \<Rightarrow> ustr \<Rightarrow> error + CaseInfo list" where
  \<open>parse_case_status L raw =
     (if str_contains (u ''<table'') (py_lower L raw) then Inr (parse_case_status_html L raw)
      else
        (case parse_json_envelope L raw of
           Inl e \<Rightarrow> Inl e
         | Inr (records, tot) \<Rightarrow> case_status_records L records []))\<close>

section \<open>Judgment search parser (judgments/parser.py)\<close>

text \<open>
  The module has its own \<open>_parse_date\<close> and \<open>_clean_text\<close>, identical to those of the
  HC Services parser; \<open>parse_date\<close> and \<open>clean_text\<close> stand for both.

  A literal letter of a pattern under \<open>re.IGNORECASE\<close>, for the letters of the patterns
  below (\<open>Hon'ble\<close>, \<open>and\<close>, \<open>Next\<close>): the letter itself or its capital.
\<close>

definition ci_eq :: "nat \<Rightarrow> nat \<Rightarrow> bool" where
  "ci_eq p c \<longleftrightarrow> c = p \<or> c + 32 = p"

text \<open>The rest of \<open>s\<close> after a case-insensitive match of the lower-case word \<open>p\<close> at its head.\<close>

fun ci_prefix :: "ustr \<Rightarrow> ustr \<Rightarrow> ustr option" where
  "ci_prefix [] s = Some s"
| "ci_prefix (p # ps) [] = None"
| "ci_prefix (p # ps) (c # cs) = (if ci_eq p c then ci_prefix ps cs else None)"

text \<open>\<^verbatim>\<open>ble\s+\<close> at the head of \<open>s\<close>: the number of characters matched.\<close>

definition ble_match :: "ustr \<Rightarrow> nat option" where
  "ble_match s =
     (case ci_prefix (u ''ble'') s of
        None \<Rightarrow> None
      | Some r \<Rightarrow>
          (case r of
             [] \<Rightarrow> None
           | c # _ \<Rightarrow> if isspace c then Some (3 + length (takeWhile isspace r)) else None))"

text \<open>
  \<^verbatim>\<open>Hon'?ble\s+\<close> at the head of \<open>s\<close>: the number of characters matched. The optional
  apostrophe is tried first.
\<close>

definition hon_match :: "ustr \<Rightarrow> nat option" where
  "hon_match s =
     (case ci_prefix (u ''hon'') s of
        None \<Rightarrow> None
      | Some r \<Rightarrow>
          (case r of
             [] \<Rightarrow> None
           | c # r2 \<Rightarrow>
               (case (if c = 39 then ble_match r2 else None) of
                  Some n \<Rightarrow> Some (3 + 1 + n)
                | None \<Rightarrow> (case ble_match r of Some n \<Rightarrow> Some (3 + n) | None \<Rightarrow> None))))"

text \<open>
  \<^verbatim>\<open>re.sub(r"Hon'?ble\s+", "", s, flags=re.IGNORECASE)\<close>; the first argument counts the
  characters of a match still to be dropped.
\<close>

fun hon_sub :: "nat \<Rightarrow> ustr \<Rightarrow> ustr" where
  "hon_sub k [] = []"
| "hon_sub k (c # cs) =
     (if k > 0 then hon_sub (k - 1) cs
      else (case hon_match (c # cs) of
              Some n \<Rightarrow> hon_sub (n - 1) cs
            | None \<Rightarrow> c # hon_sub 0 cs))"

text \<open>\<^verbatim>\<open>,\s*|\s+and\s+\<close> at the head of \<open>s\<close>: the number of characters matched.\<close>

definition sep_match :: "ustr \<Rightarrow> nat option" where
  "sep_match s =
     (case s of
        [] \<Rightarrow> None
      | c # r \<Rightarrow>
          if c = 44 then Some (1 + length (takeWhile isspace r))
          else if isspace c then
            (case ci_prefix (u ''and'') (dropWhile isspace s) of
               None \<Rightarrow> None
             | Some r2 \<Rightarrow>
                 (case r2 of
                    [] \<Rightarrow> None
                  | c2 # _ \<Rightarrow>
                      if isspace c2
                      then Some (length (takeWhile isspace s) + 3 + length (takeWhile isspace r2))
                      else None))
          else None)"

text \<open>\<open>re.split\<close> for that pattern; the first argument as in \<open>hon_sub\<close>.\<close>

fun sep_split :: "nat \<Rightarrow> ustr \<Rightarrow> ustr list" where
  "sep_split k [] = [[]]"
| "sep_split k (c # cs) =
     (if k > 0 then sep_split (k - 1) cs
      else (case sep_match (c # cs) of
              Some n \<Rightarrow> [] # sep_split (n - 1) cs
            | None \<Rightarrow>
                (case sep_split 0 cs of
                   [] \<Rightarrow> [[c]]
                 | part # parts \<Rightarrow> (c # part) # parts)))"

text \<open>\<open>_parse_judges\<close>.\<close>

definition parse_judges :: "ustr \<Rightarrow> ustr list" where
  "parse_judges text0 =
     filter (\<lambda>p. p \<noteq> []) (map str_strip (sep_split 0 (hon_sub 0 (clean_text text0))))"

text \<open>\<open>s.replace(old, "")\<close>; the counter as in \<open>hon_sub\<close>.\<close>

fun remove_from :: "ustr \<Rightarrow> nat \<Rightarrow> ustr \<Rightarrow> ustr" where
  "remove_from old k [] = []"
| "remove_from old k (c # cs) =
     (if k > 0 then remove_from old (k - 1) cs
      else if startswith (c # cs) old then remove_from old (length old - 1) cs
      else c # remove_from old 0 cs)"

definition str_remove :: "ustr \<Rightarrow> ustr \<Rightarrow> ustr" where
  "str_remove old s = (if old = [] then s else remove_from old 0 s)"

text \<open>\<open>_extract_title_and_case\<close>.\<close>

definition extract_title_and_case :: "node \<Rightarrow> ustr \<times> ustr" where
  "extract_title_and_case cell =
     (let ttl = (case find_tag (u ''strong'') cell of
                   Some strong \<Rightarrow> clean_text (get_text strong)
                 | None \<Rightarrow> []);
          full_text = clean_text (get_text cell)
      in (ttl, str_strip (str_remove ttl full_text)))"

text \<open>\<^verbatim>\<open>re.compile(r"of \d+").search(s)\<close> finds a match.\<close>

fun of_digits_search :: "pylib \<Rightarrow> ustr \<Rightarrow> bool" where
  "of_digits_search L [] = False"
| "of_digits_search L (c # cs) =
     ((startswith (c # cs) (u ''of '')
        \<and> (case drop 3 (c # cs) of [] \<Rightarrow> False | d # _ \<Rightarrow> re_digit L d))
      \<or> of_digits_search L cs)"

text \<open>
  \<^verbatim>\<open>re.search(r"of\s+(\d+)", s)\<close>: the group of the leftmost match. No character is
  both whitespace and a digit, so the whitespace of a match is the whole run after
  \<open>of\<close>.
\<close>

fun of_count_search :: "pylib \<Rightarrow> ustr \<Rightarrow> ustr option" where
  "of_count_search L [] = None"
| "of_count_search L (c # cs) =
     (let r = drop 2 (c # cs); r2 = dropWhile isspace r in
      if startswith (c # cs) (u ''of'') \<and> r2 \<noteq> r \<and> takeWhile (re_digit L) r2 \<noteq> []
      then Some (takeWhile (re_digit L) r2)
      else of_count_search L cs)"

text \<open>
  \<open>_parse_total_count\<close>. \<open>pagination_region\<close> is its variable \<open>pagination\<close>: the first
  \<open>div\<close> of class \<open>pagination\<close>, or else the first \<open>span\<close> whose string matches
  \<^verbatim>\<open>of \d+\<close>. \<open>int\<close> of the group may raise \<open>ValueError\<close>.
\<close>

definition pagination_region :: "pylib \<Rightarrow> node list \<Rightarrow> node option" where
  "pagination_region L soup =
     or_else (soup_find_where (u ''div'') (has_class (u ''pagination'')) soup)
             (soup_find_where (u ''span'')
                (\<lambda>x. case node_string x of
                       None \<Rightarrow> False
                     | Some s \<Rightarrow> of_digits_search L s) soup)"

definition parse_total_count :: "pylib \<Rightarrow> node list \<Rightarrow> error + int" where
  "parse_total_count L soup =
     (case pagination_region L soup of
        None \<Rightarrow> Inr 0
      | Some pagination \<Rightarrow>
          (case of_count_search L (get_text pagination) of
             None \<Rightarrow> Inr 0
           | Some grp \<Rightarrow>
               (case py_int_of_str L grp of
                  None \<Rightarrow> Inl ValueError
                | Some n \<Rightarrow> Inr n)))"

text \<open>\<^verbatim>\<open>re.compile(r"Next", re.IGNORECASE).search(s)\<close> finds a match.\<close>

fun next_search :: "ustr \<Rightarrow> bool" where
  "next_search [] = False"
| "next_search (c # cs) = (ci_prefix (u ''next'') (c # cs) \<noteq> None \<or> next_search cs)"

text \<open>\<open>_has_next_page\<close>.\<close>

definition has_next_page :: "node list \<Rightarrow> bool" where
  "has_next_page soup =
     (or_else (soup_find_where (u ''a'') (has_class (u ''next'')) soup)
              (soup_find_where (u ''a'')
                 (\<lambda>x. case node_string x of None \<Rightarrow> False | Some s \<Rightarrow> next_search s) soup)
      \<noteq> None)"

text \<open>
  The body of the loop of \<open>parse_judgment_search\<close> for one row. Its code for the PDF
  link is that of \<open>parse_orders\<close>, so \<open>order_pdf_url\<close> stands for both.
\<close>

definition judgment_row :: "pylib \<Rightarrow> ustr \<Rightarrow> node \<Rightarrow> JudgmentResult option" where
  "judgment_row L base_url row =
     (let cols = find_all (u ''td'') row in
      if length cols < 7 then None
      else
        (let (ttl, cn) = extract_title_and_case (cols ! 2);
             js = parse_judges (get_text (cols ! 4));
             url = order_pdf_url (cols ! 6) base_url
         in Some \<lparr>title = ttl,
                  j_court_name = clean_text (get_text (cols ! 3)),
                  j_case_number = cn,
                  judgment_date = parse_date L (get_text (cols ! 5)),
                  j_judges = js,
                  j_pdf_url = url,
                  j_pdf_bytes = None,
                  citation = [],
                  bench_type =
                    (if length js \<ge> 3 then u ''Full Bench''
                     else if length js = 2 then u ''Division Bench''
                     else if length js = 1 then u ''Single Bench''
                     else []),
                  source_url = url,
                  source_id = [],
                  metadata = []\<rparr>))"

fun judgment_rows ::
  "pylib \<Rightarrow> ustr \<Rightarrow> node list \<Rightarrow> JudgmentResult list \<Rightarrow> JudgmentResult list" where
  "judgment_rows L base_url [] judgments = judgments"
| "judgment_rows L base_url (row # rows) judgments =
     (case judgment_row L base_url row of
        None \<Rightarrow> judgment_rows L base_url rows judgments
      | Some j \<Rightarrow> judgment_rows L base_url rows (judgments @ [j]))"

text \<open>\<open>parse_judgment_search\<close>.\<close>

definition parse_judgment_search ::
  "pylib \<Rightarrow> ustr \<Rightarrow> ustr \<Rightarrow> int \<Rightarrow> error + JudgmentResult SearchResult" where
  "parse_judgment_search L html base_url pg =
     (let soup = bs4_parse L html in
      case or_else (soup_find_where (u ''table'') (has_id (u ''resultTable'')) soup)
                   (soup_find (u ''table'') soup) of
        None \<Rightarrow> Inr SearchResult_default
      | Some table \<Rightarrow>
          (let judgments = judgment_rows L base_url (data_rows table) [] in
           case parse_total_count L soup of
             Inl e \<Rightarrow> Inl e
           | Inr tc \<Rightarrow>
               Inr \<lparr>items = judgments,
                    total_count = (if tc \<noteq> 0 then tc else int (length judgments)),
                    page = pg,
                    page_size = int (length judgments),
                    has_next = has_next_page soup\<rparr>))"

section \<open>HC Services client (hcservices/client.py)\<close>

definition case_status_form ::
  "ustr \<Rightarrow> ustr \<Rightarrow> ustr \<Rightarrow> ustr \<Rightarrow> ustr \<Rightarrow> ustr \<Rightarrow> (ustr \<times> ustr) list" where
  "case_status_form sc cc ctype cnum yr captcha =
     [(u ''court_code'', cc), (u ''state_code'', sc), (u ''court_complex_code'', cc),
      (u ''caseStatusSearchType'', u ''CScaseNumber''), (u ''captcha'', captcha),
      (u ''case_type'', ctype), (u ''case_no'', cnum), (u ''rgyear'', yr),
      (u ''caseNoType'', u ''new''), (u ''displayOldCaseNo'', u ''NO'')]"

definition case_status_by_party_form ::
  "ustr \<Rightarrow> ustr \<Rightarrow> ustr \<Rightarrow> ustr \<Rightarrow> ustr \<Rightarrow> ustr \<Rightarrow> (ustr \<times> ustr) list" where
  "case_status_by_party_form sc cc petres_name rgyear captcha status_filter =
     [(u ''court_code'', cc), (u ''state_code'', sc), (u ''court_complex_code'', cc),
      (u ''caseStatusSearchType'', u ''CSpartyName''), (u ''captcha'', captcha),
      (u ''f'', status_filter), (u ''petres_name'', petres_name), (u ''rgyear'', rgyear)]"

definition court_orders_form ::
  "ustr \<Rightarrow> ustr \<Rightarrow> ustr \<Rightarrow> ustr \<Rightarrow> ustr \<Rightarrow> ustr \<Rightarrow> (ustr \<times> ustr) list" where
  "court_orders_form sc cc ctype cnum yr captcha =
     [(u ''court_code'', cc), (u ''state_code'', sc), (u ''court_complex_code'', cc),
      (u ''caseStatusSearchType'', u ''COCaseNumber''), (u ''captcha'', captcha),
      (u ''case_type'', ctype), (u ''case_no'', cnum), (u ''rgyear'', yr),
      (u ''caseNoType'', u ''new''), (u ''displayOldCaseNo'', u ''NO'')]"

text \<open>\<open>date.strftime("%d-%m-%Y")\<close> and the order of dates.\<close>

definition strftime_dmy :: "date \<Rightarrow> ustr" where
  "strftime_dmy dt =
     (case dt of Date y m d \<Rightarrow> zero_pad 2 d @ [45] @ zero_pad 2 m @ [45] @ zero_pad 4 y)"

definition date_less :: "date \<Rightarrow> date \<Rightarrow> bool" where
  "date_less a b =
     (case a of Date y1 m1 d1 \<Rightarrow>
        (case b of Date y2 m2 d2 \<Rightarrow>
           y1 < y2 \<or> (y1 = y2 \<and> (m1 < m2 \<or> (m1 = m2 \<and> d1 < d2)))))"

text \<open>\<open>cause_list_form\<close>; \<open>today\<close> is \<open>date.today()\<close>.\<close>

definition cause_list_form ::
  "date \<Rightarrow> ustr \<Rightarrow> ustr \<Rightarrow> ustr \<Rightarrow> ustr \<Rightarrow> ustr \<Rightarrow> ustr \<Rightarrow> (ustr \<times> ustr) list" where
  "cause_list_form today sc cc captcha causelist_date flag selprevdays =
     [(u ''action_code'', u ''showCauseList''), (u ''flag'', flag),
      (u ''selprevdays'', selprevdays), (u ''captcha'', captcha), (u ''state_code'', sc),
      (u ''court_code'', cc), (u ''caseStatusSearchType'', u ''CLcauselist''),
      (u ''appFlag'', []),
      (u ''causelist_date'',
         if causelist_date = [] then strftime_dmy today else causelist_date)]"

text \<open>
  The captcha solver is a capability \<open>solve(image_bytes) -> str\<close>; it is a parameter.
  \<open>_solve_captcha\<close> fetches the image and solves it.
\<close>

type_synonym solver = "nat list \<Rightarrow> ustr"

definition hc_solve_captcha ::
  "config \<Rightarrow> network \<Rightarrow> solver \<Rightarrow> world \<Rightarrow> (error + ustr) \<times> world" where
  "hc_solve_captcha cfg net solve w =
     (case http_get cfg net hc_CAPTCHA_IMAGE_URL NoPayload w of
        (Inl e, w1) \<Rightarrow> (Inl e, w1)
      | (Inr resp, w1) \<Rightarrow> (Inr (solve (resp_content resp)), w1))"

text \<open>The quick check of \<open>_post_with_captcha_retry\<close> for a rejected captcha.\<close>

definition invalid_captcha :: "response \<Rightarrow> bool" where
  \<open>invalid_captcha resp =
     (let t = str_lstrip_chars [BOM] (str_strip (resp_text resp)) in
      str_contains (u ''"Invalid Captcha"'') t
      \<or> str_contains (u ''"con":"Invalid Captcha"'') t)\<close>

text \<open>
  The \<open>CaptchaError\<close> raised after the loop of \<open>_post_with_captcha_retry\<close>, with its
  message.
\<close>

definition captcha_failed_after :: "int \<Rightarrow> error" where
  "captcha_failed_after bound =
     CaptchaError (u ''CAPTCHA failed after '' @ str_of_int bound @ u '' attempts'')"

text \<open>
  The loop of \<open>_post_with_captcha_retry\<close> over \<open>range(max_retries)\<close>; the loop variable
  is used for logging only.
\<close>

fun captcha_attempts ::
  "config \<Rightarrow> network \<Rightarrow> solver \<Rightarrow> ustr \<Rightarrow> (ustr \<Rightarrow> (ustr \<times> ustr) list) \<Rightarrow> int \<Rightarrow> nat list
     \<Rightarrow> world \<Rightarrow> (error + response) \<times> world" where
  "captcha_attempts cfg net solve url form_builder bound [] w =
     (Inl (captcha_failed_after bound), w)"
| "captcha_attempts cfg net solve url form_builder bound (attempt # rest) w =
     (case hc_init_session cfg net w of
        (Inl e, w1) \<Rightarrow> (Inl e, w1)
      | (Inr _, w1) \<Rightarrow>
          (case hc_solve_captcha cfg net solve w1 of
             (Inl e, w2) \<Rightarrow> (Inl e, w2)
           | (Inr captcha, w2) \<Rightarrow>
               (case http_post cfg net url (FormData (form_builder captcha)) w2 of
                  (Inl e, w3) \<Rightarrow> (Inl e, w3)
                | (Inr resp, w3) \<Rightarrow>
                    if invalid_captcha resp
                    then captcha_attempts cfg net solve url form_builder bound rest w3
                    else (Inr resp, w3))))"

definition post_with_captcha_retry ::
  "config \<Rightarrow> network \<Rightarrow> solver \<Rightarrow> ustr \<Rightarrow> (ustr \<Rightarrow> (ustr \<times> ustr) list) \<Rightarrow> int
     \<Rightarrow> world \<Rightarrow> (error + response) \<times> world" where
  "post_with_captcha_retry cfg net solve url form_builder bound w =
     captcha_attempts cfg net solve url form_builder bound [0 ..< nat bound] w"

text \<open>
  The operations that submit a solved captcha. None of them passes \<open>max_retries\<close>, so
  the bound is its default 3.
\<close>

definition case_status ::
  "pylib \<Rightarrow> config \<Rightarrow> network \<Rightarrow> solver \<Rightarrow> Court \<Rightarrow> ustr \<Rightarrow> ustr \<Rightarrow> ustr \<Rightarrow> ustr
     \<Rightarrow> world \<Rightarrow> (error + CaseInfo list) \<times> world" where
  "case_status L cfg net solve court ctype cnum yr bench_code w =
     (case post_with_captcha_retry cfg net solve hc_SHOW_RECORDS_URL
             (case_status_form (state_code court) bench_code ctype cnum yr) 3 w of
        (Inl e, w1) \<Rightarrow> (Inl e, w1)
      | (Inr resp, w1) \<Rightarrow>
          (case parse_case_status L (resp_text resp) of
             Inl e \<Rightarrow> (Inl e, w1)
           | Inr results \<Rightarrow>
               (Inr (map (\<lambda>r. r\<lparr>court_name := c_name court\<rparr>) results), w1)))"

definition case_status_by_party ::
  "pylib \<Rightarrow> config \<Rightarrow> network \<Rightarrow> solver \<Rightarrow> Court \<Rightarrow> ustr \<Rightarrow> ustr \<Rightarrow> ustr \<Rightarrow> ustr
     \<Rightarrow> world \<Rightarrow> (error + CaseInfo list) \<times> world" where
  "case_status_by_party L cfg net solve court party_name yr bench_code status_filter w =
     (case post_with_captcha_retry cfg net solve hc_SHOW_RECORDS_URL
             (\<lambda>captcha. case_status_by_party_form (state_code court) bench_code party_name yr
                 captcha status_filter) 3 w of
        (Inl e, w1) \<Rightarrow> (Inl e, w1)
      | (Inr resp, w1) \<Rightarrow>
          (case parse_case_status L (resp_text resp) of
             Inl e \<Rightarrow> (Inl e, w1)
           | Inr results \<Rightarrow>
               (Inr (map (\<lambda>r. r\<lparr>court_name := c_name court\<rparr>) results), w1)))"

definition court_orders ::
  "pylib \<Rightarrow> config \<Rightarrow> network \<Rightarrow> solver \<Rightarrow> Court \<Rightarrow> ustr \<Rightarrow> ustr \<Rightarrow> ustr \<Rightarrow> ustr
     \<Rightarrow> world \<Rightarrow> (error + CaseOrder list) \<times> world" where
  "court_orders L cfg net solve court ctype cnum yr bench_code w =
     (case post_with_captcha_retry cfg net solve hc_SHOW_RECORDS_URL
             (court_orders_form (state_code court) bench_code ctype cnum yr) 3 w of
        (Inl e, w1) \<Rightarrow> (Inl e, w1)
      | (Inr resp, w1) \<Rightarrow> (Inr (parse_orders L (resp_text resp) hc_BASE_URL), w1))"

definition cause_list ::
  "pylib \<Rightarrow> date \<Rightarrow> config \<Rightarrow> network \<Rightarrow> solver \<Rightarrow> Court \<Rightarrow> bool \<Rightarrow> ustr \<Rightarrow> ustr
     \<Rightarrow> world \<Rightarrow> (error + CauseListPDF list) \<times> world" where
  "cause_list L today cfg net solve court civil bench_code causelist_date w =
     (let selprevdays =
            (if causelist_date = [] then u ''0''
             else (case py_strptime L causelist_date (u ''%d-%m-%Y'') of
                     Some sel \<Rightarrow> if date_less sel today then u ''1'' else u ''0''
                   | None \<Rightarrow> u ''0''))
      in case post_with_captcha_retry cfg net solve hc_INDEX_QRY_URL
                (\<lambda>captcha. cause_list_form today (state_code court) bench_code captcha
                    causelist_date (if civil then u ''civ_t'' else u ''cri_t'') selprevdays) 3 w of
           (Inl e, w1) \<Rightarrow> (Inl e, w1)
         | (Inr resp, w1) \<Rightarrow> (Inr (parse_cause_list L (resp_text resp) hc_BASE_URL), w1))"

section \<open>Judgment search client (judgments/endpoints.py, judgments/client.py)\<close>

definition js_BASE_URL :: ustr where
  "js_BASE_URL = u ''https://judgments.ecourts.gov.in/pdfsearch''"

definition js_MAIN_PAGE_URL :: ustr where
  "js_MAIN_PAGE_URL = js_BASE_URL @ u ''/''"

definition js_CAPTCHA_IMAGE_URL :: ustr where
  "js_CAPTCHA_IMAGE_URL = js_BASE_URL @ u ''/vendor/securimage/securimage_show.php''"

definition js_CHECK_CAPTCHA_URL :: ustr where
  "js_CHECK_CAPTCHA_URL = js_BASE_URL @ u ''/?p=pdf_search/checkCaptcha''"

definition js_SEARCH_RESULTS_URL :: ustr where
  "js_SEARCH_RESULTS_URL = js_BASE_URL @ u ''/''"

definition check_captcha_form :: "ustr \<Rightarrow> ustr \<Rightarrow> ustr \<Rightarrow> ustr" where
  "check_captcha_form captcha search_text search_opt =
     u ''captcha='' @ captcha @ u ''&search_text='' @ search_text
       @ u ''&search_opt='' @ search_opt
       @ u ''&escr_flag=&proximity=&sel_lang=&ajax_req=true&app_token=''"

definition search_results_params ::
  "ustr \<Rightarrow> ustr \<Rightarrow> ustr \<Rightarrow> ustr \<Rightarrow> json \<Rightarrow> (ustr \<times> json) list" where
  "search_results_params search_text captcha search_opt ctype app_token =
     [(u ''p'', JStr (u ''pdf_search/home'')), (u ''text'', JStr search_text),
      (u ''captcha'', JStr captcha), (u ''search_opt'', JStr search_opt),
      (u ''fcourt_type'', JStr ctype), (u ''escr_flag'', JStr []),
      (u ''proximity'', JStr []), (u ''sel_lang'', JStr []), (u ''app_token'', app_token)]"

definition js_init_session :: "config \<Rightarrow> network \<Rightarrow> world \<Rightarrow> (error + unit) \<times> world" where
  "js_init_session cfg net w =
     (case http_get cfg net js_MAIN_PAGE_URL NoPayload w of
        (Inl e, w1) \<Rightarrow> (Inl e, w1)
      | (Inr resp, w1) \<Rightarrow> (Inr (), w1))"

definition js_solve_captcha ::
  "config \<Rightarrow> network \<Rightarrow> solver \<Rightarrow> world \<Rightarrow> (error + ustr) \<times> world" where
  "js_solve_captcha cfg net solve w =
     (case http_get cfg net js_CAPTCHA_IMAGE_URL NoPayload w of
        (Inl e, w1) \<Rightarrow> (Inl e, w1)
      | (Inr resp, w1) \<Rightarrow> (Inr (solve (resp_content resp)), w1))"

text \<open>
  \<open>_validate_captcha\<close>. The client keeps \<open>_app_token\<close>; it is passed in and returned
  next to the answer. \<open>resp.json()\<close> is \<open>json.loads\<close> of the body; when it fails the
  answer is \<open>False\<close> and the token stays. A decoded value that is not an object has no
  \<open>get\<close>.
\<close>

definition validate_captcha ::
  "pylib \<Rightarrow> config \<Rightarrow> network \<Rightarrow> ustr \<Rightarrow> ustr \<Rightarrow> json \<Rightarrow> world
     \<Rightarrow> (error + bool \<times> json) \<times> world" where
  "validate_captcha L cfg net captcha search_text app_token w =
     (case http_post cfg net js_CHECK_CAPTCHA_URL
             (Content (check_captcha_form captcha search_text (u ''PHRASE''))) w of
        (Inl e, w1) \<Rightarrow> (Inl e, w1)
      | (Inr resp, w1) \<Rightarrow>
          (case py_json_loads L True (resp_text resp) of
             None \<Rightarrow> (Inr (False, app_token), w1)
           | Some (JObj data) \<Rightarrow>
               (Inr (dict_get data (u ''captcha_status'') = JStr (u ''Y''),
                     dict_get_default data (u ''app_token'') (JStr [])), w1)
           | Some _ \<Rightarrow> (Inl AttributeError, w1)))"

text \<open>
  The captcha loop of \<open>search\<close> over \<open>range(max_captcha_attempts)\<close>: the solved text and
  the token when an attempt is validated (\<open>break\<close>), \<open>None\<close> when the loop runs out
  (\<open>else\<close>).
\<close>

fun search_attempts ::
  "pylib \<Rightarrow> config \<Rightarrow> network \<Rightarrow> solver \<Rightarrow> ustr \<Rightarrow> nat list \<Rightarrow> json \<Rightarrow> world
     \<Rightarrow> (error + (ustr \<times> json) option) \<times> world" where
  "search_attempts L cfg net solve search_text [] app_token w = (Inr None, w)"
| "search_attempts L cfg net solve search_text (attempt # rest) app_token w =
     (case js_solve_captcha cfg net solve w of
        (Inl e, w1) \<Rightarrow> (Inl e, w1)
      | (Inr captcha_text, w1) \<Rightarrow>
          if captcha_text = [] then search_attempts L cfg net solve search_text rest app_token w1
          else
            (case validate_captcha L cfg net captcha_text search_text app_token w1 of
               (Inl e, w2) \<Rightarrow> (Inl e, w2)
             | (Inr (ok, tok), w2) \<Rightarrow>
                 if ok then (Inr (Some (captcha_text, tok)), w2)
                 else search_attempts L cfg net solve search_text rest tok w2))"

text \<open>\<open>JudgmentSearchClient.search\<close>.\<close>

definition search ::
  "pylib \<Rightarrow> config \<Rightarrow> network \<Rightarrow> solver \<Rightarrow> ustr \<Rightarrow> ustr \<Rightarrow> ustr \<Rightarrow> int \<Rightarrow> json \<Rightarrow> world
     \<Rightarrow> (error + JudgmentResult SearchResult) \<times> world" where
  "search L cfg net solve search_text search_opt ctype max_captcha_attempts app_token w =
     (case js_init_session cfg net w of
        (Inl e, w1) \<Rightarrow> (Inl e, w1)
      | (Inr _, w1) \<Rightarrow>
          (case search_attempts L cfg net solve search_text [0 ..< nat max_captcha_attempts]
                  app_token w1 of
             (Inl e, w2) \<Rightarrow> (Inl e, w2)
           | (Inr None, w2) \<Rightarrow> (Inr SearchResult_default, w2)
           | (Inr (Some (captcha_text, tok)), w2) \<Rightarrow>
               (case http_get cfg net js_SEARCH_RESULTS_URL
                       (Params (search_results_params search_text captcha_text search_opt
                                  ctype tok)) w2 of
                  (Inl e, w3) \<Rightarrow> (Inl e, w3)
                | (Inr resp, w3) \<Rightarrow>
                    (parse_judgment_search L (resp_text resp) js_BASE_URL 1, w3))))"

section \<open>An instance of the library on ASCII input\<close>

text \<open>
  For evaluating the model on concrete inputs, the library functions are instantiated
  with definitions that follow the Python ones on the fragment used here: ASCII letters
  and digits, JSON without escapes, fractions or exponents, decimal integers without
  underscores.
\<close>

definition ascii_lower :: "ustr \<Rightarrow> ustr" where
  "ascii_lower s = map (\<lambda>c. if 65 \<le> c \<and> c \<le> 90 then c + 32 else c) s"

definition ascii_digit :: "nat \<Rightarrow> bool" where
  "ascii_digit c \<longleftrightarrow> 48 \<le> c \<and> c \<le> 57"

definition ascii_word :: "nat \<Rightarrow> bool" where
  "ascii_word c \<longleftrightarrow>
     ascii_digit c \<or> (65 \<le> c \<and> c \<le> 90) \<or> (97 \<le> c \<and> c \<le> 122) \<or> c = 95"

definition digits_value :: "ustr \<Rightarrow> nat" where
  "digits_value ds = foldl (\<lambda>acc c. 10 * acc + (c - 48)) 0 ds"

definition int_of_digits :: "ustr \<Rightarrow> int option" where
  "int_of_digits ds =
     (if ds \<noteq> [] \<and> list_all ascii_digit ds then Some (int (digits_value ds)) else None)"

definition ascii_int_of_str :: "ustr \<Rightarrow> int option" where
  "ascii_int_of_str s =
     (case str_strip s of
        [] \<Rightarrow> None
      | c # r \<Rightarrow>
          if c = 45 then map_option uminus (int_of_digits r)
          else if c = 43 then int_of_digits r
          else int_of_digits (c # r))"

definition ascii_repr :: "json \<Rightarrow> ustr" where
  "ascii_repr v =
     (case v of
        JNull \<Rightarrow> u ''None''
      | JBool b \<Rightarrow> (if b then u ''True'' else u ''False'')
      | JInt n \<Rightarrow> str_of_int n
      | JStr s \<Rightarrow> s
      | _ \<Rightarrow> [])"

text \<open>
  \<open>strptime\<close> for the format \<^verbatim>\<open>%d-%m-%Y\<close>: a day of one or two digits (or a space and
  a digit), a month of one or two digits and a year of four digits, separated by hyphens
  and making up the whole text, that name a date of the calendar.
\<close>

definition day_field :: "ustr \<Rightarrow> int option" where
  "day_field s =
     (case s of
        [a] \<Rightarrow> if 49 \<le> a \<and> a \<le> 57 then Some (int a - 48) else None
      | [a, b] \<Rightarrow>
          if a = 32 \<and> 49 \<le> b \<and> b \<le> 57 then Some (int b - 48)
          else if ascii_digit a \<and> ascii_digit b \<and> 1 \<le> digits_value [a, b]
                  \<and> digits_value [a, b] \<le> 31
          then Some (int (digits_value [a, b])) else None
      | _ \<Rightarrow> None)"

definition month_field :: "ustr \<Rightarrow> int option" where
  "month_field s =
     (case s of
        [a] \<Rightarrow> if 49 \<le> a \<and> a \<le> 57 then Some (int a - 48) else None
      | [a, b] \<Rightarrow>
          if ascii_digit a \<and> ascii_digit b \<and> 1 \<le> digits_value [a, b]
             \<and> digits_value [a, b] \<le> 12
          then Some (int (digits_value [a, b])) else None
      | _ \<Rightarrow> None)"

definition year_field :: "ustr \<Rightarrow> int option" where
  "year_field s =
     (if length s = 4 \<and> list_all ascii_digit s then Some (int (digits_value s)) else None)"

definition leap_year :: "int \<Rightarrow> bool" where
  "leap_year y \<longleftrightarrow> y mod 4 = 0 \<and> (y mod 100 \<noteq> 0 \<or> y mod 400 = 0)"

definition days_in_month :: "int \<Rightarrow> int \<Rightarrow> int" where
  "days_in_month y m =
     (if m = 2 then (if leap_year y then 29 else 28)
      else if m = 4 \<or> m = 6 \<or> m = 9 \<or> m = 11 then 30 else 31)"

definition ascii_strptime :: "ustr \<Rightarrow> ustr \<Rightarrow> date option" where
  "ascii_strptime s fmt =
     (if fmt \<noteq> u ''%d-%m-%Y'' then None
      else
        (case str_split 45 s of
           [ds, ms, ys] \<Rightarrow>
             (case (day_field ds, month_field ms, year_field ys) of
                (Some d, Some m, Some y) \<Rightarrow>
                  if 1 \<le> y \<and> d \<le> days_in_month y m then Some (Date y m d) else None
              | _ \<Rightarrow> None)
         | _ \<Rightarrow> None))"

text \<open>
  A JSON decoder for objects, arrays, strings without escapes, integers and the three
  literals. The first argument of the functions bounds the depth of the recursion.
\<close>

definition json_ws :: "nat \<Rightarrow> bool" where
  "json_ws c \<longleftrightarrow> c = 32 \<or> c = 9 \<or> c = 10 \<or> c = 13"

definition json_string :: "bool \<Rightarrow> ustr \<Rightarrow> (ustr \<times> ustr) option" where
  "json_string strict s =
     (let body = takeWhile (\<lambda>c. c \<noteq> 34) s; r = dropWhile (\<lambda>c. c \<noteq> 34) s in
      if r = [] \<or> 92 \<in> set body \<or> (strict \<and> (\<exists>c \<in> set body. c < 32)) then None
      else Some (body, tl r))"

definition json_literal :: "ustr \<Rightarrow> (json \<times> ustr) option" where
  "json_literal s =
     (if startswith s (u ''null'') then Some (JNull, drop 4 s)
      else if startswith s (u ''true'') then Some (JBool True, drop 4 s)
      else if startswith s (u ''false'') then Some (JBool False, drop 5 s)
      else
        (let neg = startswith s (u ''-'');
             r = (if neg then tl s else s);
             ds = takeWhile ascii_digit r;
             r2 = dropWhile ascii_digit r
         in if ds = [] \<or> (length ds > 1 \<and> hd ds = 48)
               \<or> (case r2 of [] \<Rightarrow> False | c # _ \<Rightarrow> c = 46 \<or> c = 101 \<or> c = 69)
            then None
            else Some (JInt (if neg then - int (digits_value ds) else int (digits_value ds)), r2)))"

fun json_value :: "bool \<Rightarrow> nat \<Rightarrow> ustr \<Rightarrow> (json \<times> ustr) option"
  and json_items :: "bool \<Rightarrow> nat \<Rightarrow> ustr \<Rightarrow> (json list \<times> ustr) option"
  and json_members :: "bool \<Rightarrow> nat \<Rightarrow> ustr \<Rightarrow> ((ustr \<times> json) list \<times> ustr) option" where
  "json_value strict 0 s = None"
| "json_value strict (Suc n) s =
     (case dropWhile json_ws s of
        [] \<Rightarrow> None
      | c # r \<Rightarrow>
          if c = 34 then
            (case json_string strict r of
               None \<Rightarrow> None
             | Some (str, r2) \<Rightarrow> Some (JStr str, r2))
          else if c = 91 then
            (case dropWhile json_ws r of
               [] \<Rightarrow> None
             | c2 # r2 \<Rightarrow>
                 if c2 = 93 then Some (JList [], r2)
                 else (case json_items strict n r of
                         None \<Rightarrow> None
                       | Some (vs, r3) \<Rightarrow> Some (JList vs, r3)))
          else if c = 123 then
            (case dropWhile json_ws r of
               [] \<Rightarrow> None
             | c2 # r2 \<Rightarrow>
                 if c2 = 125 then Some (JObj [], r2)
                 else (case json_members strict n r of
                         None \<Rightarrow> None
                       | Some (ms, r3) \<Rightarrow>
                           Some (JObj (foldl (\<lambda>d (k, v). AList.update k v d) [] ms), r3)))
          else json_literal (c # r))"
| "json_items strict 0 s = None"
| "json_items strict (Suc n) s =
     (case json_value strict n s of
        None \<Rightarrow> None
      | Some (v, r) \<Rightarrow>
          (case dropWhile json_ws r of
             [] \<Rightarrow> None
           | c # r2 \<Rightarrow>
               if c = 93 then Some ([v], r2)
               else if c = 44 then
                 (case json_items strict n r2 of
                    None \<Rightarrow> None
                  | Some (vs, r3) \<Rightarrow> Some (v # vs, r3))
               else None))"
| "json_members strict 0 s = None"
| "json_members strict (Suc n) s =
     (case dropWhile json_ws s of
        [] \<Rightarrow> None
      | c # r \<Rightarrow>
          if c \<noteq> 34 then None
          else
            (case json_string strict r of
               None \<Rightarrow> None
             | Some (key, r2) \<Rightarrow>
                 (case dropWhile json_ws r2 of
                    [] \<Rightarrow> None
                  | c2 # r3 \<Rightarrow>
                      if c2 \<noteq> 58 then None
                      else
                        (case json_value strict n r3 of
                           None \<Rightarrow> None
                         | Some (v, r4) \<Rightarrow>
                             (case dropWhile json_ws r4 of
                                [] \<Rightarrow> None
                              | c3 # r5 \<Rightarrow>
                                  if c3 = 125 then Some ([(key, v)], r5)
                                  else if c3 = 44 then
                                    (case json_members strict n r5 of
                                       None \<Rightarrow> None
                                     | Some (ms, r6) \<Rightarrow> Some ((key, v) # ms, r6))
                                  else None)))))"

definition ascii_json_loads :: "bool \<Rightarrow> ustr \<Rightarrow> json option" where
  "ascii_json_loads strict s =
     (case json_value strict (Suc (length s)) s of
        None \<Rightarrow> None
      | Some (v, r) \<Rightarrow> if dropWhile json_ws r = [] then Some v else None)"

text \<open>The instance; its HTML parser is the one that returns the document \<open>doc\<close>.\<close>

definition ascii_lib :: "node list \<Rightarrow> pylib" where
  "ascii_lib doc =
     \<lparr>py_lower = ascii_lower,
      py_json_loads = ascii_json_loads,
      py_int_of_str = ascii_int_of_str,
      py_repr = ascii_repr,
      py_strptime = ascii_strptime,
      re_word = ascii_word,
      re_digit = ascii_digit,
      bs4_parse = (\<lambda>html. doc)\<rparr>"

section \<open>Observations on a run\<close>

text \<open>
  The requests put on the wire so far, in order, and the method and URL of a request. A
  round of \<open>_post_with_captcha_retry\<close> to \<open>url\<close> shows as three of them: the main page,
  the captcha image, the form; a round of the captcha loop of \<open>search\<close> as two.
\<close>

definition sent :: "world \<Rightarrow> http_request list" where
  "sent w = List.map_filter (\<lambda>e. case e of Sent rq \<Rightarrow> Some rq | Slept d \<Rightarrow> None) (trace w)"

definition method_url :: "http_request \<Rightarrow> string \<times> ustr" where
  "method_url rq = (r_method rq, r_url rq)"

definition hc_round :: "ustr \<Rightarrow> (string \<times> ustr) list" where
  "hc_round url = [(''GET'', hc_MAIN_PAGE_URL), (''GET'', hc_CAPTCHA_IMAGE_URL), (''POST'', url)]"

definition js_round :: "(string \<times> ustr) list" where
  "js_round = [(''GET'', js_CAPTCHA_IMAGE_URL), (''POST'', js_CHECK_CAPTCHA_URL)]"

text \<open>
  The answers to \<open>checkCaptcha\<close> on which \<open>_validate_captcha\<close> returns \<open>False\<close>: a body
  that is not JSON, or an object whose \<open>captcha_status\<close> is not \<open>"Y"\<close>.
\<close>

definition captcha_refused :: "pylib \<Rightarrow> response \<Rightarrow> bool" where
  "captcha_refused L resp =
     (case py_json_loads L True (resp_text resp) of
        None \<Rightarrow> True
      | Some (JObj data) \<Rightarrow> dict_get data (u ''captcha_status'') \<noteq> JStr (u ''Y'')
      | Some _ \<Rightarrow> False)"

section \<open>Scenarios of the test suite\<close>

text \<open>
  The court of the client tests, and a portal that answers the bench listing with a
  placeholder entry, two benches and a leading byte-order mark, and the case-type listing
  likewise.
\<close>

definition delhi :: Court where
  "delhi = \<lparr>c_name = u ''Delhi High Court'', c_code = u ''delhi'', state_code = u ''26'',
            court_type = HIGH_COURT, court_bench = None\<rparr>"

definition listing_portal :: network where
  "listing_portal n rq =
     Returned \<lparr>status_code = 200,
               resp_text =
                 (if r_method rq = ''POST'' \<and> r_url rq = hc_INDEX_QRY_URL
                  then [BOM] @ u ''0~Select Bench#1~Principal Bench at Delhi#2~Lucknow Bench#''
                  else if r_method rq = ''POST''
                  then [BOM] @ u ''0~Select Case Type#134~W.P.(C)(CIVIL WRITS)-134#''
                  else []),
               resp_content = []\<rparr>"

text \<open>
  \<open>tests/test_hcservices_parser.py\<close>: the bodies of the JSON tests, and a body with a
  server error.
\<close>

definition body_invalid_captcha :: ustr where
  \<open>body_invalid_captcha = u ''{"con":"Invalid Captcha"}''\<close>

definition body_no_records :: ustr where
  \<open>body_no_records = u ''{"con":[],"totRecords":"0","Error":""}''\<close>

definition body_error_val :: ustr where
  \<open>body_error_val = u ''{"con":[],"Error":"ERROR_VAL"}''\<close>

text \<open>
  \<open>tests/test_http.py\<close>: a configuration without delay and with two attempts, an
  endpoint that always answers HTTP 500, and a client that has sent nothing yet.
\<close>

definition fast_config :: config where
  "fast_config = \<lparr>request_delay = 0, timeout = 5, max_retries = 2\<rparr>"

definition response_500 :: response where
  "response_500 = \<lparr>status_code = 500, resp_text = [], resp_content = []\<rparr>"

definition always_500 :: network where
  "always_500 n rq = Raised (HTTPStatusError response_500)"

definition get_down :: http_request where
  "get_down = \<lparr>r_method = ''GET'', r_url = u ''https://example.com/down'', r_payload = NoPayload\<rparr>"

definition world0 :: world where
  "world0 = \<lparr>issued = 0, trace = []\<rparr>"

text \<open>
  \<open>tests/test_hcservices_parser.py\<close>: the page without results, as text and as the
  parsed document; an orders page with a header row, a dated order and a row whose date
  does not parse; a judgment search page with one result and no pagination.
\<close>

definition no_results_html :: ustr where
  "no_results_html = u ''<html><body>No results</body></html>''"

definition no_results_doc :: "node list" where
  "no_results_doc = [Tag (u ''html'') [] [Tag (u ''body'') [] [Str (u ''No results'')]]]"

definition orders_table :: node where
  "orders_table =
     Tag (u ''table'') [(u ''id'', u ''orderTable'')]
       [Tag (u ''tr'') []
          [Tag (u ''th'') [] [Str (u ''Sr No'')], Tag (u ''th'') [] [Str (u ''Date'')],
           Tag (u ''th'') [] [Str (u ''Type'')], Tag (u ''th'') [] [Str (u ''Judge'')],
           Tag (u ''th'') [] [Str (u ''PDF'')]],
        Tag (u ''tr'') []
          [Tag (u ''td'') [] [Str (u ''1'')], Tag (u ''td'') [] [Str (u ''15-02-2024'')],
           Tag (u ''td'') [] [Str (u ''Judgment'')],
           Tag (u ''td'') [] [Str (u ''Division Bench'')],
           Tag (u ''td'') []
             [Tag (u ''a'') [(u ''href'', u ''/orders/order_123.pdf'')] [Str (u ''View'')]]],
        Tag (u ''tr'') []
          [Tag (u ''td'') [] [Str (u ''2'')], Tag (u ''td'') [] [Str (u ''not dated'')],
           Tag (u ''td'') [] [Str (u ''Interim Order'')],
           Tag (u ''td'') [] [Str (u ''Single Bench'')],
           Tag (u ''td'') [] []]]"

definition orders_doc :: "node list" where
  "orders_doc = [Tag (u ''html'') [] [Tag (u ''body'') [] [orders_table]]]"

definition judgments_table :: node where
  "judgments_table =
     Tag (u ''table'') [(u ''id'', u ''resultTable'')]
       [Tag (u ''tr'') [] [Tag (u ''th'') [] [Str (u ''Sr No'')]],
        Tag (u ''tr'') []
          [Tag (u ''td'') [] [Str (u ''1'')], Tag (u ''td'') [] [],
           Tag (u ''td'') []
             [Tag (u ''strong'') [] [Str (u ''State vs XYZ Enterprises'')],
              Tag (u ''br'') [] [], Str (u ''CRL.A. 567/2023'')],
           Tag (u ''td'') [] [Str (u ''Delhi High Court'')],
           Tag (u ''td'') [] [Str (u ''Justice A'')],
           Tag (u ''td'') [] [Str (u ''15-02-2024'')],
           Tag (u ''td'') []
             [Tag (u ''a'') [(u ''href'', u ''/pdf/judgment_001.pdf'')] [Str (u ''PDF'')]]]]"

definition judgments_doc :: "node list" where
  "judgments_doc = [Tag (u ''html'') [] [Tag (u ''body'') [] [judgments_table]]]"

text \<open>
  The same page with a \<open>span\<close> after the table that holds a comment and the text
  \<open>1 of 7\<close>: the span has two children, so it has no \<open>string\<close>.
\<close>

definition commented_total_doc :: "node list" where
  "commented_total_doc =
     [Tag (u ''html'') []
        [Tag (u ''body'') []
           [judgments_table,
            Tag (u ''span'') [] [Special (u '' total ''), Str (u ''1 of 7'')]]]]"

text \<open>
  Party cells of the legacy case-status table: the two parties in emphasized sub-spans;
  the parties joined by \<open>v\<close>; a single party.
\<close>

definition strong_cell :: node where
  "strong_cell =
     Tag (u ''td'') []
       [Tag (u ''strong'') [] [Str (u ''ABC Industries Ltd'')], Str (u '' vs ''),
        Tag (u ''strong'') [] [Str (u ''Union of India'')]]"

definition party_cell :: node where
  "party_cell = Tag (u ''td'') [] [Str (u ''ABC Industries v Union of India'')]"

definition plain_cell :: node where
  "plain_cell = Tag (u ''td'') [] [Str (u ''Government of X'')]"

text \<open>
  \<open>tests/test_hcservices_client.py\<close>: the solver of the client tests. A judgment portal
  that refuses every captcha, and an HC Services portal that rejects every captcha.
\<close>

definition auto_solver :: solver where
  "auto_solver image_bytes = u ''test123''"

definition refusing_portal :: network where
  \<open>refusing_portal n rq =
     Returned \<lparr>status_code = 200,
               resp_text =
                 (if r_method rq = ''POST''
                  then u ''{"captcha_status":"N","errormsg":"Invalid Captcha"}''
                  else []),
               resp_content = [1, 2, 3]\<rparr>\<close>

definition rejecting_portal :: network where
  \<open>rejecting_portal n rq =
     Returned \<lparr>status_code = 200,
               resp_text = (if r_method rq = ''POST'' then u ''{"con":"Invalid Captcha"}'' else []),
               resp_content = [1, 2, 3]\<rparr>\<close>

text \<open>
  An HC Services portal that rejects the captcha of the first round (the first three
  requests on the wire) and then answers with an envelope without records.
\<close>

definition accepted_response :: response where
  "accepted_response = \<lparr>status_code = 200, resp_text = body_no_records, resp_content = []\<rparr>"

definition once_rejecting_portal :: network where
  "once_rejecting_portal n rq =
     (if r_method rq = ''POST'' \<and> 3 \<le> n then Returned accepted_response
      else rejecting_portal n rq)"

section \<open>Pagination arithmetic\<close>

lemma div_round_up:
  fixes a b :: int
  assumes "0 < b"
  shows "(a + b - 1) div b = (if a mod b = 0 then a div b else a div b + 1)"
proof -
  define q where "q = a div b"
  define r where "r = a mod b"
  have a: "a = q * b + r" by (simp add: q_def r_def)
  have r: "0 \<le> r" "r < b" using assms by (simp_all add: r_def)
  have split: "(a + b - 1) div b = q + (r + b - 1) div b"
  proof -
    have "a + b - 1 = q * b + (r + b - 1)" by (simp add: a)
    then have "(a + b - 1) div b = (q * b + (r + b - 1)) div b" by (simp only:)
    also have "\<dots> = q + (r + b - 1) div b"
      using assms by (simp only: div_mult_self3)
    finally show ?thesis .
  qed
  show ?thesis
  proof (cases "r = 0")
    case True
    then have "(r + b - 1) div b = 0" using assms by (simp add: div_pos_pos_trivial)
    with split True show ?thesis by (simp add: q_def r_def)
  next
    case False
    have "r + b - 1 = 1 * b + (r - 1)" by simp
    then have "(r + b - 1) div b = (1 * b + (r - 1)) div b" by (simp only:)
    also have "\<dots> = 1 + (r - 1) div b" using assms by (simp only: div_mult_self3)
    also have "(r - 1) div b = 0" using r False by (simp add: div_pos_pos_trivial)
    finally have "(r + b - 1) div b = 1" by simp
    with split False show ?thesis by (simp add: q_def r_def)
  qed
qed

lemma ceil_div_pos:
  fixes a b :: int
  assumes "0 < b"
  shows "(a + b - 1) div b = \<lceil>real_of_int a / real_of_int b\<rceil>"
proof -
  have "\<lceil>real_of_int a / real_of_int b\<rceil> = - \<lfloor>real_of_int (- a) / real_of_int b\<rfloor>"
    by (simp add: ceiling_def)
  also have "\<dots> = - ((- a) div b)"
    by (simp only: floor_divide_of_int_eq)
  also have "\<dots> = (a + b - 1) div b"
    using assms by (simp add: div_round_up zdiv_zminus1_eq_if)
  finally show ?thesis by simp
qed

text \<open>
  C4. For a \<open>SearchResult\<close> with non-negative \<open>total_count\<close>, \<open>total_pages\<close> is
  the ceiling of \<open>total_count / page_size\<close> when \<open>page_size > 0\<close>, and is \<open>0\<close> when
  \<open>page_size = 0\<close>.
\<close>

theorem total_pages_ceiling:
  assumes "0 \<le> total_count r"
  shows "(0 < page_size r \<longrightarrow>
            total_pages r = \<lceil>real_of_int (total_count r) / real_of_int (page_size r)\<rceil>)
         \<and> (page_size r = 0 \<longrightarrow> total_pages r = 0)"
  using assms by (simp add: total_pages_def ceil_div_pos)

theorem total_pages_ceiling_witness:
  "(0::int) \<le> total_count \<lparr>items = ([]::nat list), total_count = 45, page = 1, page_size = 10,
        has_next = False\<rparr>
   \<and> total_pages \<lparr>items = ([]::nat list), total_count = 45, page = 1, page_size = 10,
        has_next = False\<rparr> = 5
   \<and> total_pages \<lparr>items = ([]::nat list), total_count = 10, page = 1, page_size = 0,
        has_next = False\<rparr> = 0"
  using total_pages_ceiling
          [of "\<lparr>items = ([]::nat list), total_count = 45, page = 1, page_size = 10,
                has_next = False\<rparr>"]
        total_pages_ceiling
          [of "\<lparr>items = ([]::nat list), total_count = 10, page = 1, page_size = 0,
                has_next = False\<rparr>"]
  by simp

section \<open>Transport: retries and backoff\<close>

lemma send_issued: "issued (snd (send net rq w)) = Suc (issued w)"
  by (simp add: send_def)

lemma send_fst: "fst (send net rq w) = net (issued w) rq"
  by (simp add: send_def)

lemma send_trace: "trace (snd (send net rq w)) = trace w @ [Sent rq]"
  by (simp add: send_def)

lemma sleep_issued: "issued (sleep d w) = issued w"
  by (simp add: sleep_def)

lemma sleep_trace: "trace (sleep d w) = trace w @ [Slept d]"
  by (simp add: sleep_def)

lemma request_attempts_all_fail:
  assumes "a < n" "int n = max_retries cfg"
    and "\<forall>i < n - a. \<exists>e. net (issued w + i) rq = Raised e \<and> retryable e"
  shows "fst (request_attempts cfg net rq [a ..< n] lst w)
           = Inl (HttpError (case net (issued w + (n - a - 1)) rq of Raised e \<Rightarrow> e))
         \<and> issued (snd (request_attempts cfg net rq [a ..< n] lst w)) = issued w + (n - a)"
  using assms
proof (induction "n - a" arbitrary: a w lst)
  case 0
  then show ?case by simp
next
  case (Suc k)
  from Suc.prems(3) have "\<exists>e. net (issued w + 0) rq = Raised e \<and> retryable e"
    using Suc.prems(1) by (metis zero_less_diff)
  then obtain e where e: "net (issued w) rq = Raised e" "retryable e" by auto
  have upt: "[a ..< n] = a # [Suc a ..< n]" using Suc.prems(1) by (simp add: upt_conv_Cons)
  show ?case
  proof (cases "Suc a = n")
    case True
    then have "int a = max_retries cfg - 1" using Suc.prems(2) by simp
    then show ?thesis using e True upt by (simp add: send_def)
  next
    case False
    then have lt: "Suc a < n" using Suc.prems(1) by simp
    have ne: "int a \<noteq> max_retries cfg - 1" using False Suc.prems(2) by auto
    define w1 where "w1 = sleep (real ((a + 1) * 2)) (snd (send net rq w))"
    have iw1: "issued w1 = Suc (issued w)" by (simp add: w1_def sleep_def send_def)
    have k: "k = n - Suc a" using Suc.hyps(2) by simp
    have all: "\<forall>i < n - Suc a. \<exists>e. net (issued w1 + i) rq = Raised e \<and> retryable e"
    proof (intro allI impI)
      fix i assume "i < n - Suc a"
      then have "Suc i < n - a" by simp
      with Suc.prems(3) have "\<exists>e. net (issued w + Suc i) rq = Raised e \<and> retryable e" by blast
      then show "\<exists>e. net (issued w1 + i) rq = Raised e \<and> retryable e" by (simp add: iw1)
    qed
    have IH: "fst (request_attempts cfg net rq [Suc a ..< n] (Some e) w1)
           = Inl (HttpError (case net (issued w1 + (n - Suc a - 1)) rq of Raised e \<Rightarrow> e))
         \<and> issued (snd (request_attempts cfg net rq [Suc a ..< n] (Some e) w1)) = issued w1 + (n - Suc a)"
      using Suc.hyps(1)[OF k lt Suc.prems(2) all] .
    have step: "request_attempts cfg net rq [a ..< n] lst w
          = request_attempts cfg net rq [Suc a ..< n] (Some e) w1"
      using e ne by (simp add: upt send_def w1_def)
    have idx: "issued w1 + (n - Suc a - 1) = issued w + (n - a - 1)" using lt iw1 by simp
    have idx2: "issued w1 + (n - Suc a) = issued w + (n - a)" using lt iw1 by simp
    show ?thesis using IH by (simp only: step idx idx2) 
  qed
qed

lemma request_attempts_trace_extends:
  "\<exists>ev. trace (snd (request_attempts cfg net rq atts lst w)) = trace w @ ev"
proof (induction atts arbitrary: lst w)
  case Nil
  then show ?case by simp
next
  case (Cons a atts)
  show ?case
  proof (cases "net (issued w) rq")
    case (Returned resp)
    then show ?thesis by (simp add: send_def)
  next
    case (Raised e)
    show ?thesis
    proof (cases "retryable e \<and> int a \<noteq> max_retries cfg - 1")
      case True
      define w1 where "w1 = sleep (real ((a + 1) * 2)) (snd (send net rq w))"
      have step: "request_attempts cfg net rq (a # atts) lst w
            = request_attempts cfg net rq atts (Some e) w1"
        using True Raised by (simp add: send_def w1_def)
      obtain ev where "trace (snd (request_attempts cfg net rq atts (Some e) w1)) = trace w1 @ ev"
        using Cons.IH by blast
      moreover have "trace w1 = trace w @ [Sent rq, Slept (real ((a + 1) * 2))]"
        by (simp add: w1_def sleep_def send_def)
      ultimately show ?thesis unfolding step by simp
    next
      case False
      then show ?thesis using Raised by (auto simp: send_def)
    qed
  qed
qed

lemma request_attempts_backoff:
  assumes "int n = max_retries cfg" "a + j < n"
    and "\<forall>i<j. \<exists>e. net (issued w + i) rq = Raised e \<and> retryable e"
  shows "\<exists>rest. trace (snd (request_attempts cfg net rq [a ..< n] lst w))
           = trace w @ concat (map (\<lambda>i. [Sent rq, Slept (real ((a + i + 1) * 2))]) [0 ..< j])
               @ Sent rq # rest"
  using assms
proof (induction j arbitrary: a w lst)
  case 0
  then have upt: "[a ..< n] = a # [Suc a ..< n]" by (simp add: upt_conv_Cons)
  show ?case
  proof (cases "net (issued w) rq")
    case (Returned resp)
    then show ?thesis by (simp add: upt send_def)
  next
    case (Raised e)
    show ?thesis
    proof (cases "retryable e \<and> int a \<noteq> max_retries cfg - 1")
      case True
      define w1 where "w1 = sleep (real ((a + 1) * 2)) (snd (send net rq w))"
      have step: "request_attempts cfg net rq [a ..< n] lst w
            = request_attempts cfg net rq [Suc a ..< n] (Some e) w1"
        using True Raised by (simp add: upt send_def w1_def)
      obtain ev where "trace (snd (request_attempts cfg net rq [Suc a ..< n] (Some e) w1)) = trace w1 @ ev"
        using request_attempts_trace_extends by blast
      moreover have "trace w1 = trace w @ [Sent rq, Slept (real ((a + 1) * 2))]"
        by (simp add: w1_def sleep_def send_def)
      ultimately show ?thesis unfolding step by simp
    next
      case False
      then show ?thesis using Raised by (auto simp: upt send_def)
    qed
  qed
next
  case (Suc j)
  have upt: "[a ..< n] = a # [Suc a ..< n]" using Suc.prems(2) by (simp add: upt_conv_Cons)
  from Suc.prems(3) have "\<exists>e. net (issued w + 0) rq = Raised e \<and> retryable e" by blast
  then obtain e where e: "net (issued w) rq = Raised e" "retryable e" by auto
  have ne: "int a \<noteq> max_retries cfg - 1" using Suc.prems(1,2) by auto
  define w1 where "w1 = sleep (real ((a + 1) * 2)) (snd (send net rq w))"
  have iw1: "issued w1 = Suc (issued w)" by (simp add: w1_def sleep_def send_def)
  have tw1: "trace w1 = trace w @ [Sent rq, Slept (real ((a + 1) * 2))]"
    by (simp add: w1_def sleep_def send_def)
  have step: "request_attempts cfg net rq [a ..< n] lst w
        = request_attempts cfg net rq [Suc a ..< n] (Some e) w1"
    using e ne by (simp add: upt send_def w1_def)
  have all: "\<forall>i<j. \<exists>e. net (issued w1 + i) rq = Raised e \<and> retryable e"
  proof (intro allI impI)
    fix i assume "i < j"
    then have "Suc i < Suc j" by simp
    with Suc.prems(3) have "\<exists>e. net (issued w + Suc i) rq = Raised e \<and> retryable e" by blast
    then show "\<exists>e. net (issued w1 + i) rq = Raised e \<and> retryable e" by (simp add: iw1)
  qed
  have lt: "Suc a + j < n" using Suc.prems(2) by simp
  obtain rest where rest:
    "trace (snd (request_attempts cfg net rq [Suc a ..< n] (Some e) w1))
       = trace w1 @ concat (map (\<lambda>i. [Sent rq, Slept (real ((Suc a + i + 1) * 2))]) [0 ..< j])
           @ Sent rq # rest"
    using Suc.IH[OF Suc.prems(1) lt all] by blast
  have shift: "map (\<lambda>i. [Sent rq, Slept (real ((a + i + 1) * 2))]) [0 ..< Suc j]
        = [Sent rq, Slept (real ((a + 1) * 2))]
            # map (\<lambda>i. [Sent rq, Slept (real ((Suc a + i + 1) * 2))]) [0 ..< j]"
    by (simp only: upt_conv_Cons [of 0 "Suc j"] map_Suc_upt [symmetric]) (simp add: comp_def)
  show ?case
    unfolding step rest tw1 shift by simp
qed

lemma upt_0_2: "[0 ..< 2] = [0, 1::nat]"
  by (simp add: upt_conv_Cons)

text \<open>
  C3 (as amended). When every attempt of a request fails with a failure the transport
  retries (HTTP error status, connection error, read timeout) and \<open>max_retries \<ge> 1\<close>,
  \<open>_request\<close> fails after exactly \<open>max_retries\<close> attempts, and the error is the last
  underlying failure itself, raised again unwrapped.
\<close>

theorem request_exhausted_reraises_last:
  assumes "1 \<le> max_retries cfg"
    and "\<forall>i < nat (max_retries cfg). \<exists>e. net (issued w + i) rq = Raised e \<and> retryable e"
    and "net (issued w + nat (max_retries cfg) - 1) rq = Raised e_last"
  shows "fst (request cfg net rq w) = Inl (HttpError e_last)
         \<and> issued (snd (request cfg net rq w)) = issued w + nat (max_retries cfg)"
proof -
  define n where "n = nat (max_retries cfg)"
  define w0 where "w0 = sleep (request_delay cfg) w"
  have n: "0 < n" "int n = max_retries cfg" using assms(1) by (simp_all add: n_def)
  have iw0: "issued w0 = issued w" by (simp add: w0_def sleep_def)
  have all: "\<forall>i < n - 0. \<exists>e. net (issued w0 + i) rq = Raised e \<and> retryable e"
    using assms(2) by (simp add: n_def iw0)
  have last: "net (issued w0 + (n - 0 - 1)) rq = Raised e_last"
    using assms(3) n(1) by (simp add: n_def iw0)
  have "fst (request_attempts cfg net rq [0 ..< n] None w0)
           = Inl (HttpError (case net (issued w0 + (n - 0 - 1)) rq of Raised e \<Rightarrow> e))
         \<and> issued (snd (request_attempts cfg net rq [0 ..< n] None w0)) = issued w0 + (n - 0)"
    using n all by (intro request_attempts_all_fail) simp_all
  then show ?thesis
    unfolding last by (simp add: request_def n_def [symmetric] w0_def [symmetric] iw0)
qed

theorem request_exhausted_reraises_last_witness:
  "1 \<le> max_retries fast_config
   \<and> fst (request fast_config always_500 get_down world0)
       = Inl (HttpError (HTTPStatusError response_500))
   \<and> issued (snd (request fast_config always_500 get_down world0)) = 2"
  using request_exhausted_reraises_last
          [of fast_config always_500 world0 get_down "HTTPStatusError response_500"]
  by (simp add: fast_config_def always_500_def world0_def retryable_def)

text \<open>
  C3 as stated fails: on the always-500 endpoint with two attempts the caller receives the
  \<open>HTTPStatusError\<close> of the last attempt, not an error that wraps it.
\<close>

theorem request_exhausted_wraps_counterexample:
  "fst (request fast_config always_500 get_down world0)
     = Inl (HttpError (HTTPStatusError response_500))
   \<and> fst (request fast_config always_500 get_down world0)
     \<noteq> Inl (RuntimeError (Some (HTTPStatusError response_500)))"
  by (simp add: request_def fast_config_def always_500_def world0_def send_def sleep_def
        retryable_def upt_0_2)

text \<open>
  C9. While attempts remain, a failed attempt is followed by a wait of twice its ordinal
  number in seconds and then by the next attempt: if the first \<open>k\<close> attempts fail with a
  retried failure and \<open>k < max_retries\<close>, the client sleeps \<open>request_delay\<close>, and then
  each attempt \<open>i = 1, \<dots>, k\<close> is followed by a sleep of \<open>2 * i\<close> seconds, after which
  attempt \<open>k + 1\<close> is sent.
\<close>

theorem backoff_wait:
  assumes "int k < max_retries cfg"
    and "\<forall>i<k. \<exists>e. net (issued w + i) rq = Raised e \<and> retryable e"
  shows "\<exists>rest. trace (snd (request cfg net rq w))
           = trace w @ Slept (request_delay cfg)
               # concat (map (\<lambda>i. [Sent rq, Slept (real (i * 2))]) [1 ..< Suc k])
               @ Sent rq # rest"
proof -
  define n where "n = nat (max_retries cfg)"
  define w0 where "w0 = sleep (request_delay cfg) w"
  have n: "int n = max_retries cfg" "0 + k < n" using assms(1) by (simp_all add: n_def)
  have iw0: "issued w0 = issued w" by (simp add: w0_def sleep_def)
  have tw0: "trace w0 = trace w @ [Slept (request_delay cfg)]" by (simp add: w0_def sleep_def)
  have all: "\<forall>i<k. \<exists>e. net (issued w0 + i) rq = Raised e \<and> retryable e"
    using assms(2) by (simp add: iw0)
  obtain rest where rest: "trace (snd (request_attempts cfg net rq [0 ..< n] None w0))
           = trace w0 @ concat (map (\<lambda>i. [Sent rq, Slept (real ((0 + i + 1) * 2))]) [0 ..< k])
               @ Sent rq # rest"
    using request_attempts_backoff [where n = n and a = 0 and j = k and cfg = cfg and net = net
        and w = w0 and rq = rq and lst = None] n all by blast
  have shift: "map (\<lambda>i. [Sent rq, Slept (real (i * 2))]) [1 ..< Suc k]
        = map (\<lambda>i. [Sent rq, Slept (real ((0 + i + 1) * 2))]) [0 ..< k]"
    by (simp only: One_nat_def map_Suc_upt [symmetric]) (simp add: comp_def)
  show ?thesis
    unfolding request_def n_def [symmetric] w0_def [symmetric] rest tw0 shift by simp
qed

theorem backoff_wait_witness:
  "int 1 < max_retries fast_config
   \<and> (\<exists>rest. trace (snd (request fast_config always_500 get_down world0))
         = [Slept 0, Sent get_down, Slept 2, Sent get_down] @ rest)"
  using backoff_wait [of 1 fast_config always_500 world0 get_down]
  by (simp add: fast_config_def always_500_def world0_def retryable_def)

section \<open>Evaluation on concrete inputs\<close>

lemmas str_defs = u_def str_strip_def strip_by_def lstrip_by_def rstrip_by_def isspace_def
  str_lstrip_chars_def str_strip_chars_def BOM_def

lemmas json_defs = ascii_json_loads_def json_string_def json_literal_def json_ws_def
  ascii_digit_def digits_value_def

text \<open>A request that is answered at the first attempt.\<close>

lemma request_returned:
  assumes "1 \<le> max_retries cfg" "net (issued w) rq = Returned resp"
  shows "request cfg net rq w
           = (Inr resp, w\<lparr>issued := Suc (issued w),
                          trace := trace w @ [Slept (request_delay cfg), Sent rq]\<rparr>)"
proof -
  have "[0 ..< nat (max_retries cfg)] = 0 # [1 ..< nat (max_retries cfg)]"
    using assms(1) by (simp add: upt_conv_Cons)
  then show ?thesis
    using assms(2) by (simp add: request_def send_def sleep_def)
qed


section \<open>Bench and case-type listings\<close>

lemma benches_loop_entries:
  assumes "(k, v) \<in> set (benches_loop L entries benches)"
  shows "(k, v) \<in> set benches \<or> (\<exists>e \<in> set entries. bench_entry L e = Some (k, v))"
  using assms
proof (induction entries arbitrary: benches)
  case Nil
  then show ?case by simp
next
  case (Cons entry entries)
  show ?case
  proof (cases "bench_entry L entry")
    case None
    then show ?thesis using Cons by auto
  next
    case (Some cn)
    obtain code name where cn: "cn = (code, name)" by (cases cn)
    from Cons.prems Some cn
    have "(k, v) \<in> set (benches_loop L entries (AList.update code name benches))" by simp
    then have "(k, v) \<in> set (AList.update code name benches)
               \<or> (\<exists>e \<in> set entries. bench_entry L e = Some (k, v))"
      by (rule Cons.IH)
    moreover have "set (AList.update code name benches) \<subseteq> set benches \<union> {(code, name)}"
      by (induction benches) auto
    ultimately show ?thesis using Some cn by auto
  qed
qed

lemma bench_entry_filter:
  assumes "bench_entry L e = Some (k, v)"
  shows "k \<noteq> u ''0'' \<and> \<not> str_contains (u ''select'') (py_lower L v)"
  using assms
  by (auto simp: bench_entry_def Let_def split: if_splits prod.splits)

lemma update_set_subset: "set (AList.update k v al) \<subseteq> set al \<union> {(k, v)}"
  by (induction al) auto

lemma case_types_loop_entries:
  assumes "(k, v) \<in> set (case_types_loop L entries case_types)"
  shows "(k, v) \<in> set case_types \<or> (\<exists>e \<in> set entries. case_type_entry L e = Some (k, v))"
  using assms
proof (induction entries arbitrary: case_types)
  case Nil
  then show ?case by simp
next
  case (Cons entry entries)
  show ?case
  proof (cases "case_type_entry L entry")
    case None
    then show ?thesis using Cons by auto
  next
    case (Some cn)
    obtain code name where cn: "cn = (code, name)" by (cases cn)
    from Cons.prems Some cn
    have "(k, v) \<in> set (case_types_loop L entries (AList.update code name case_types))" by simp
    then have "(k, v) \<in> set (AList.update code name case_types)
               \<or> (\<exists>e \<in> set entries. case_type_entry L e = Some (k, v))"
      by (rule Cons.IH)
    then show ?thesis using Some cn update_set_subset [of code name case_types] by auto
  qed
qed

lemma case_type_entry_filter:
  assumes "case_type_entry L e = Some (k, v)"
  shows "k \<noteq> u ''0'' \<and> \<not> str_contains (u ''select'') (py_lower L v)"
  using assms
  by (auto simp: case_type_entry_def Let_def split: if_splits prod.splits)

lemma benches_loop_keeps_keys:
  "k \<in> fst ` set benches \<Longrightarrow> k \<in> fst ` set (benches_loop L entries benches)"
proof (induction entries arbitrary: benches)
  case Nil
  then show ?case by simp
next
  case (Cons entry entries)
  show ?case
  proof (cases "bench_entry L entry")
    case None
    then show ?thesis using Cons by simp
  next
    case (Some cn)
    obtain code name where cn: "cn = (code, name)" by (cases cn)
    have "k \<in> fst ` set (AList.update code name benches)"
      using Cons.prems by (simp add: dom_update)
    then show ?thesis using Cons.IH Some cn by simp
  qed
qed

lemma benches_loop_complete:
  assumes "e \<in> set entries" "bench_entry L e = Some (k, v)"
  shows "k \<in> fst ` set (benches_loop L entries benches)"
  using assms
proof (induction entries arbitrary: benches)
  case Nil
  then show ?case by simp
next
  case (Cons entry entries)
  show ?case
  proof (cases "e = entry")
    case True
    have "k \<in> fst ` set (AList.update k v benches)" by (simp add: dom_update)
    then show ?thesis using True Cons.prems(2) benches_loop_keeps_keys by simp
  next
    case False
    then have "e \<in> set entries" using Cons.prems(1) by simp
    then show ?thesis using Cons.IH Cons.prems(2) by (cases "bench_entry L entry") auto
  qed
qed


text \<open>
  C6. The mappings returned by \<open>list_benches\<close> and \<open>list_case_types\<close> hold no entry whose
  key is \<open>"0"\<close> and no entry whose value, in lower case, contains \<open>"select"\<close>.
\<close>

theorem listing_excludes_placeholders:
  "(fst (list_benches L cfg net court w) = Inr benches \<longrightarrow>
      (\<forall>(k, v) \<in> set benches. k \<noteq> u ''0'' \<and> \<not> str_contains (u ''select'') (py_lower L v)))
   \<and> (fst (list_case_types L cfg net court bench_code w) = Inr case_types \<longrightarrow>
      (\<forall>(k, v) \<in> set case_types. k \<noteq> u ''0'' \<and> \<not> str_contains (u ''select'') (py_lower L v)))"
proof (intro conjI impI)
  assume r: "fst (list_benches L cfg net court w) = Inr benches"
  then obtain body where "benches = benches_loop L (str_split 35 body) []"
    by (auto simp: list_benches_def split: prod.splits sum.splits)
  then show "\<forall>(k, v) \<in> set benches. k \<noteq> u ''0'' \<and> \<not> str_contains (u ''select'') (py_lower L v)"
    using benches_loop_entries [of _ _ L "str_split 35 body" "[]"] bench_entry_filter [of L]
    by fastforce
next
  assume r: "fst (list_case_types L cfg net court bench_code w) = Inr case_types"
  then obtain body where "case_types = case_types_loop L (str_split 35 body) []"
    by (auto simp: list_case_types_def split: prod.splits sum.splits)
  then show "\<forall>(k, v) \<in> set case_types. k \<noteq> u ''0'' \<and> \<not> str_contains (u ''select'') (py_lower L v)"
    using case_types_loop_entries [of _ _ L "str_split 35 body" "[]"] case_type_entry_filter [of L]
    by fastforce
qed


theorem listing_excludes_placeholders_witness:
  "fst (list_benches (ascii_lib []) fast_config listing_portal delhi world0)
     = Inr [(u ''1'', u ''Principal Bench at Delhi''), (u ''2'', u ''Lucknow Bench'')]
   \<and> u ''1'' \<noteq> u ''0''
   \<and> \<not> str_contains (u ''select'') (py_lower (ascii_lib []) (u ''Principal Bench at Delhi''))
   \<and> fst (list_case_types (ascii_lib []) fast_config listing_portal delhi (u ''1'') world0)
     = Inr [(u ''134'', u ''W.P.(C)(CIVIL WRITS)-134'')]
   \<and> u ''134'' \<noteq> u ''0''
   \<and> \<not> str_contains (u ''select'') (py_lower (ascii_lib []) (u ''W.P.(C)(CIVIL WRITS)-134''))"
proof -
  have m: "1 \<le> max_retries fast_config" by (simp add: fast_config_def)
  have b: "fst (list_benches (ascii_lib []) fast_config listing_portal delhi world0)
     = Inr [(u ''1'', u ''Principal Bench at Delhi''), (u ''2'', u ''Lucknow Bench'')]"
    by (simp add: list_benches_def hc_init_session_def http_get_def http_post_def
          request_returned [OF m] listing_portal_def bench_entry_def ascii_lib_def ascii_lower_def
          str_split1_def Let_def str_defs)
  have ne: "hc_FILL_CASE_TYPE_URL \<noteq> hc_INDEX_QRY_URL"
    by (simp add: hc_FILL_CASE_TYPE_URL_def u_def)
  have c: "fst (list_case_types (ascii_lib []) fast_config listing_portal delhi (u ''1'') world0)
     = Inr [(u ''134'', u ''W.P.(C)(CIVIL WRITS)-134'')]"
    by (simp add: list_case_types_def hc_init_session_def http_get_def http_post_def
          request_returned [OF m] listing_portal_def ne case_type_entry_def ascii_lib_def
          ascii_lower_def str_split1_def Let_def str_defs)
  show ?thesis
    using listing_excludes_placeholders
            [of "ascii_lib []" fast_config listing_portal delhi world0
                "[(u ''1'', u ''Principal Bench at Delhi''), (u ''2'', u ''Lucknow Bench'')]"
                "u ''1''" "[(u ''134'', u ''W.P.(C)(CIVIL WRITS)-134'')]"]
          b c
    by simp
qed

section \<open>The JSON envelope\<close>

text \<open>
  C2. Provided the library decodes the two bodies as JSON prescribes and lower-cases
  ASCII letters, parsing \<^verbatim>\<open>{"con":"Invalid Captcha"}\<close> raises \<open>CaptchaError\<close>, parsing
  \<^verbatim>\<open>{"con":[],"totRecords":"0","Error":""}\<close> returns no records, and for every
  decoded envelope whose \<open>con\<close> is not a string containing \<open>captcha\<close>, an \<open>Error\<close> field
  that is true (for a string: not empty) raises \<open>ServerError\<close> with that value, which is
  not a \<open>CaptchaError\<close>.
\<close>

theorem envelope_errors:
  assumes "py_json_loads L True body_invalid_captcha
             = Some (JObj [(u ''con'', JStr (u ''Invalid Captcha''))])"
    and "py_lower L (u ''Invalid Captcha'') = u ''invalid captcha''"
    and "py_json_loads L True body_no_records
           = Some (JObj [(u ''con'', JList []), (u ''totRecords'', JStr (u ''0'')),
                         (u ''Error'', JStr [])])"
    and "py_int_of_str L (u ''0'') = Some 0"
    and "\<not> str_contains (u ''<table'') (py_lower L body_invalid_captcha)"
    and "\<not> str_contains (u ''<table'') (py_lower L body_no_records)"
  shows "parse_json_envelope L body_invalid_captcha = Inl (CaptchaError (u ''Invalid Captcha''))
       \<and> parse_case_status L body_invalid_captcha = Inl (CaptchaError (u ''Invalid Captcha''))
       \<and> parse_json_envelope L body_no_records = Inr ([], 0)
       \<and> parse_case_status L body_no_records = Inr []
       \<and> (startswith (str_lstrip_chars [BOM] (str_strip raw)) (u ''{'')
            \<and> loads_lenient L (str_lstrip_chars [BOM] (str_strip raw)) = Inr (JObj data)
            \<and> \<not> (\<exists>c. dict_get data (u ''con'') = JStr c
                       \<and> str_contains (u ''captcha'') (py_lower L c))
            \<and> truthy (dict_get_default data (u ''Error'') (JStr []))
          \<longrightarrow> parse_json_envelope L raw
                = Inl (ServerError (dict_get_default data (u ''Error'') (JStr [])))
              \<and> (\<forall>m. parse_json_envelope L raw \<noteq> Inl (CaptchaError m)))"
proof -
  have s1: "str_lstrip_chars [BOM] (str_strip body_invalid_captcha) = body_invalid_captcha"
    by (simp add: body_invalid_captcha_def str_defs)
  have s2: "str_lstrip_chars [BOM] (str_strip body_no_records) = body_no_records"
    by (simp add: body_no_records_def str_defs)
  have b1: "startswith body_invalid_captcha (u ''{'')"
    by (simp add: body_invalid_captcha_def u_def)
  have b2: "startswith body_no_records (u ''{'')"
    by (simp add: body_no_records_def u_def)
  have c1: "str_contains (u ''captcha'') (u ''invalid captcha'')"
    by (simp add: u_def)
  have e1: "parse_json_envelope L body_invalid_captcha = Inl (CaptchaError (u ''Invalid Captcha''))"
    using assms(1,2) c1 b1
    by (simp add: parse_json_envelope_def s1 loads_lenient_def dict_get_def)
  have k: "u ''con'' \<noteq> u ''totRecords''" "u ''con'' \<noteq> u ''Error''" "u ''totRecords'' \<noteq> u ''Error''"
    by (simp_all add: u_def)
  have e2: "parse_json_envelope L body_no_records = Inr ([], 0)"
    using assms(3,4) b2 k
    by (simp add: parse_json_envelope_def s2 loads_lenient_def dict_get_def dict_get_default_def
          envelope_records_def)
  have p1: "parse_case_status L body_invalid_captcha = Inl (CaptchaError (u ''Invalid Captcha''))"
    using assms(5) e1 by (simp add: parse_case_status_def)
  have p2: "parse_case_status L body_no_records = Inr []"
    using assms(6) e2 by (simp add: parse_case_status_def)
  have e3: "parse_json_envelope L raw
                = Inl (ServerError (dict_get_default data (u ''Error'') (JStr [])))"
    if "startswith (str_lstrip_chars [BOM] (str_strip raw)) (u ''{'')"
      and "loads_lenient L (str_lstrip_chars [BOM] (str_strip raw)) = Inr (JObj data)"
      and "\<not> (\<exists>c. dict_get data (u ''con'') = JStr c
                       \<and> str_contains (u ''captcha'') (py_lower L c))"
      and "truthy (dict_get_default data (u ''Error'') (JStr []))"
  proof -
    have ne: "dict_get_default data (u ''Error'') (JStr []) \<noteq> JStr []"
      using that(4) by auto
    have er: "envelope_records L data
                = Inl (ServerError (dict_get_default data (u ''Error'') (JStr [])))"
      using that(4) ne by (simp add: envelope_records_def Let_def)
    show ?thesis
      using that(1,2,3) er
      by (simp add: parse_json_envelope_def Let_def split: json.splits)
  qed
  show ?thesis
    using e1 e2 p1 p2 e3 by simp
qed

theorem envelope_errors_witness:
  "parse_case_status (ascii_lib []) body_invalid_captcha = Inl (CaptchaError (u ''Invalid Captcha''))
   \<and> parse_case_status (ascii_lib []) body_no_records = Inr []
   \<and> parse_json_envelope (ascii_lib []) body_error_val = Inl (ServerError (JStr (u ''ERROR_VAL'')))"
proof -
  let ?L = "ascii_lib []"
  have j1: "py_json_loads ?L True body_invalid_captcha
             = Some (JObj [(u ''con'', JStr (u ''Invalid Captcha''))])"
    by (simp add: ascii_lib_def body_invalid_captcha_def json_defs str_defs)
  have l1: "py_lower ?L (u ''Invalid Captcha'') = u ''invalid captcha''"
    by (simp add: ascii_lib_def ascii_lower_def u_def)
  have j2: "py_json_loads ?L True body_no_records
           = Some (JObj [(u ''con'', JList []), (u ''totRecords'', JStr (u ''0'')),
                         (u ''Error'', JStr [])])"
    by (simp add: ascii_lib_def body_no_records_def json_defs str_defs)
  have i1: "py_int_of_str ?L (u ''0'') = Some 0"
    by (simp add: ascii_lib_def ascii_int_of_str_def int_of_digits_def json_defs str_defs)
  have t1: "\<not> str_contains (u ''<table'') (py_lower ?L body_invalid_captcha)"
    by (simp add: ascii_lib_def ascii_lower_def body_invalid_captcha_def u_def)
  have t2: "\<not> str_contains (u ''<table'') (py_lower ?L body_no_records)"
    by (simp add: ascii_lib_def ascii_lower_def body_no_records_def u_def)
  have s3: "str_lstrip_chars [BOM] (str_strip body_error_val) = body_error_val"
    by (simp add: body_error_val_def str_defs)
  have b3: "startswith body_error_val (u ''{'')"
    by (simp add: body_error_val_def u_def)
  have j3: "loads_lenient ?L body_error_val
           = Inr (JObj [(u ''con'', JList []), (u ''Error'', JStr (u ''ERROR_VAL''))])"
    by (simp add: loads_lenient_def ascii_lib_def body_error_val_def json_defs str_defs)
  have g: "dict_get [(u ''con'', JList []), (u ''Error'', JStr (u ''ERROR_VAL''))] (u ''con'') = JList []"
       "dict_get_default [(u ''con'', JList []), (u ''Error'', JStr (u ''ERROR_VAL''))] (u ''Error'') (JStr [])
          = JStr (u ''ERROR_VAL'')"
    by (simp_all add: dict_get_def dict_get_default_def u_def)
  have tr: "truthy (JStr (u ''ERROR_VAL''))" by (simp add: u_def)
  show ?thesis
    using envelope_errors [of ?L body_error_val
        "[(u ''con'', JList []), (u ''Error'', JStr (u ''ERROR_VAL''))]", OF j1 l1 j2 i1 t1 t2]
      s3 b3 j3 g tr
    by simp
qed

section \<open>Parsers on pages without a table\<close>

lemmas soup_defs = soup_find_def soup_find_where_def first_where_def or_else_def is_tag_def
  has_id_def has_class_def get_attr_def find_all_def find_tag_def data_rows_def

lemmas date_defs = parse_date_def DATE_FORMAT_def ascii_strptime_def day_field_def
  month_field_def year_field_def days_in_month_def leap_year_def

lemma first_where_None:
  "first_where P xs = None \<Longrightarrow> first_where (\<lambda>x. P x \<and> Q x) xs = None"
proof -
  assume "first_where P xs = None"
  then have "filter P xs = []" by (simp add: first_where_def split: list.splits)
  then have "filter (\<lambda>x. P x \<and> Q x) xs = []" by (auto simp: filter_empty_conv)
  then show ?thesis by (simp add: first_where_def)
qed

lemma no_table_no_special_table:
  "soup_find nm doc = None \<Longrightarrow> soup_find_where nm Q doc = None"
  by (simp add: soup_find_def soup_find_where_def first_where_None)

text \<open>
  C5. When the parsed page holds no table, \<open>_parse_case_status_html\<close>,
  \<open>parse_orders\<close> and \<open>parse_cause_list\<close> return the empty list and
  \<open>parse_judgment_search\<close> returns the empty \<open>SearchResult()\<close>, none of them raising;
  and \<open>parse_case_status\<close> returns the empty list for a body that neither mentions a
  table nor starts a JSON object.
\<close>

theorem parsers_empty_without_structure:
  "(soup_find (u ''table'') (bs4_parse L html) = None \<longrightarrow>
      parse_case_status_html L html = []
      \<and> parse_orders L html base_url = []
      \<and> parse_cause_list L html base_url = []
      \<and> parse_judgment_search L html base_url pg = Inr SearchResult_default
      \<and> items (SearchResult_default :: JudgmentResult SearchResult) = [])
   \<and> (\<not> str_contains (u ''<table'') (py_lower L raw)
        \<and> \<not> startswith (str_lstrip_chars [BOM] (str_strip raw)) (u ''{'') \<longrightarrow>
      parse_case_status L raw = Inr [])"
proof (intro conjI impI)
  assume nt: "soup_find (u ''table'') (bs4_parse L html) = None"
  show "parse_case_status_html L html = []"
    using nt by (simp add: parse_case_status_html_def)
  show "parse_orders L html base_url = []"
    using nt by (simp add: parse_orders_def no_table_no_special_table or_else_def)
  show "parse_cause_list L html base_url = []"
    using nt by (simp add: parse_cause_list_def no_table_no_special_table or_else_def)
  show "parse_judgment_search L html base_url pg = Inr SearchResult_default"
    using nt by (simp add: parse_judgment_search_def no_table_no_special_table or_else_def)
  show "items (SearchResult_default :: JudgmentResult SearchResult) = []"
    by (simp add: SearchResult_default_def)
next
  assume "\<not> str_contains (u ''<table'') (py_lower L raw)
        \<and> \<not> startswith (str_lstrip_chars [BOM] (str_strip raw)) (u ''{'')"
  then show "parse_case_status L raw = Inr []"
    by (simp add: parse_case_status_def parse_json_envelope_def)
qed

theorem parsers_empty_without_structure_witness:
  "soup_find (u ''table'') (bs4_parse (ascii_lib no_results_doc) no_results_html) = None
   \<and> parse_case_status_html (ascii_lib no_results_doc) no_results_html = []
   \<and> parse_orders (ascii_lib no_results_doc) no_results_html [] = []
   \<and> parse_cause_list (ascii_lib no_results_doc) no_results_html [] = []
   \<and> parse_judgment_search (ascii_lib no_results_doc) no_results_html [] 1
       = Inr SearchResult_default
   \<and> parse_case_status (ascii_lib no_results_doc) no_results_html = Inr []"
proof -
  have a: "soup_find (u ''table'') (bs4_parse (ascii_lib no_results_doc) no_results_html) = None"
    by (simp add: soup_find_def first_where_def ascii_lib_def no_results_doc_def is_tag_def u_def)
  have b: "\<not> str_contains (u ''<table'') (py_lower (ascii_lib no_results_doc) no_results_html)"
    by (simp add: ascii_lib_def ascii_lower_def no_results_html_def u_def)
  have c: "\<not> startswith (str_lstrip_chars [BOM] (str_strip no_results_html)) (u ''{'')"
    by (simp add: no_results_html_def str_defs)
  show ?thesis
    using parsers_empty_without_structure
            [of "ascii_lib no_results_doc" no_results_html "[]" 1 no_results_html] a b c
    by simp
qed

section \<open>Orders\<close>

lemma order_rows_map_filter:
  "order_rows L b rows acc = acc @ List.map_filter (order_row L b) rows"
  by (induction rows arbitrary: acc) (auto simp: List.map_filter_simps split: option.splits)

lemma order_row_date:
  "map_option order_date (order_row L b row)
     = (if 5 \<le> length (find_all (u ''td'') row)
        then parse_date L (get_text (find_all (u ''td'') row ! 1)) else None)"
  by (auto simp: order_row_def Let_def split: option.splits)

lemma map_map_filter: "map g (List.map_filter f xs) = List.map_filter (\<lambda>x. map_option g (f x)) xs"
  by (induction xs) (auto simp: List.map_filter_simps split: option.splits)

text \<open>
  C7. For the orders table that \<open>parse_orders\<close> selects, the dates of the returned
  orders are, in row order, the parsed dates of the data rows that have at least five
  cells and whose second cell \<open>_parse_date\<close> parses (format \<^verbatim>\<open>%d-%m-%Y\<close>); a row whose
  date cell is empty or does not parse yields no order, so every returned order carries a
  parsed date.
\<close>

theorem orders_carry_parsed_dates:
  assumes "or_else (soup_find_where (u ''table'') (has_id (u ''orderTable'')) (bs4_parse L html))
                   (soup_find (u ''table'') (bs4_parse L html)) = Some table"
  shows "map order_date (parse_orders L html base_url)
           = List.map_filter
               (\<lambda>row. if 5 \<le> length (find_all (u ''td'') row)
                      then parse_date L (get_text (find_all (u ''td'') row ! 1)) else None)
               (data_rows table)
         \<and> (\<forall>ord \<in> set (parse_orders L html base_url).
               \<exists>row \<in> set (data_rows table).
                 5 \<le> length (find_all (u ''td'') row)
                 \<and> parse_date L (get_text (find_all (u ''td'') row ! 1)) = Some (order_date ord))"
proof
  show "map order_date (parse_orders L html base_url)
           = List.map_filter
               (\<lambda>row. if 5 \<le> length (find_all (u ''td'') row)
                      then parse_date L (get_text (find_all (u ''td'') row ! 1)) else None)
               (data_rows table)"
    using assms
    by (simp add: parse_orders_def order_rows_map_filter map_map_filter order_row_date)
next
  have po: "parse_orders L html base_url = List.map_filter (order_row L base_url) (data_rows table)"
    using assms by (simp add: parse_orders_def order_rows_map_filter)
  show "\<forall>ord \<in> set (parse_orders L html base_url).
               \<exists>row \<in> set (data_rows table).
                 5 \<le> length (find_all (u ''td'') row)
                 \<and> parse_date L (get_text (find_all (u ''td'') row ! 1)) = Some (order_date ord)"
  proof
    fix ord
    assume "ord \<in> set (parse_orders L html base_url)"
    then obtain row where row: "row \<in> set (data_rows table)" "order_row L base_url row = Some ord"
      unfolding po by (auto simp: List.map_filter_def)
    have "map_option order_date (order_row L base_url row) = Some (order_date ord)"
      using row(2) by simp
    then have "5 \<le> length (find_all (u ''td'') row)
                 \<and> parse_date L (get_text (find_all (u ''td'') row ! 1)) = Some (order_date ord)"
      unfolding order_row_date by (simp split: if_splits)
    then show "\<exists>row \<in> set (data_rows table).
                 5 \<le> length (find_all (u ''td'') row)
                 \<and> parse_date L (get_text (find_all (u ''td'') row ! 1)) = Some (order_date ord)"
      using row(1) by blast
  qed
qed

theorem orders_carry_parsed_dates_witness:
  "or_else (soup_find_where (u ''table'') (has_id (u ''orderTable''))
              (bs4_parse (ascii_lib orders_doc) []))
           (soup_find (u ''table'') (bs4_parse (ascii_lib orders_doc) [])) = Some orders_table
   \<and> map order_date (parse_orders (ascii_lib orders_doc) [] hc_BASE_URL) = [Date 2024 2 15]"
proof -
  have t: "or_else (soup_find_where (u ''table'') (has_id (u ''orderTable''))
              (bs4_parse (ascii_lib orders_doc) []))
           (soup_find (u ''table'') (bs4_parse (ascii_lib orders_doc) [])) = Some orders_table"
    by (simp add: ascii_lib_def orders_doc_def orders_table_def soup_defs u_def)
  have r: "List.map_filter
               (\<lambda>row. if 5 \<le> length (find_all (u ''td'') row)
                      then parse_date (ascii_lib orders_doc) (get_text (find_all (u ''td'') row ! 1))
                      else None)
               (data_rows orders_table) = [Date 2024 2 15]"
    by (simp add: List.map_filter_simps orders_table_def soup_defs date_defs ascii_lib_def
          json_defs str_defs)
  show ?thesis
    using orders_carry_parsed_dates [of "ascii_lib orders_doc" "[]" orders_table hc_BASE_URL] t r
    by simp
qed

section \<open>Judgment search pagination\<close>

lemma judgment_rows_map_filter:
  "judgment_rows L b rows acc = acc @ List.map_filter (judgment_row L b) rows"
  by (induction rows arbitrary: acc) (auto simp: List.map_filter_simps split: option.splits)

lemma judgment_rows_count:
  "length (List.map_filter (judgment_row L b) rows)
     = length (filter (\<lambda>row. 7 \<le> length (find_all (u ''td'') row)) rows)"
  by (induction rows) (auto simp: List.map_filter_simps judgment_row_def Let_def split: prod.splits)

text \<open>
  C10 (as amended). On a page with a results table: when the pagination region is missing
  or holds no \<^verbatim>\<open>of N\<close> count, \<open>parse_judgment_search\<close> returns a \<open>SearchResult\<close> whose
  \<open>total_count\<close> is the number of parsed rows; and whenever it returns a result,
  \<open>page_size\<close> is the number of parsed rows. On a page without any table it returns the
  default \<open>SearchResult()\<close>: no items, \<open>total_count\<close> 0 and \<open>page_size\<close> 10.
\<close>

theorem judgment_search_counts:
  "(or_else (soup_find_where (u ''table'') (has_id (u ''resultTable'')) (bs4_parse L html))
            (soup_find (u ''table'') (bs4_parse L html)) = Some table
      \<longrightarrow>
        ((pagination_region L (bs4_parse L html) = None
           \<or> (\<exists>p. pagination_region L (bs4_parse L html) = Some p
                   \<and> of_count_search L (get_text p) = None))
          \<longrightarrow> (\<exists>r. parse_judgment_search L html base_url pg = Inr r
                   \<and> items r = List.map_filter (judgment_row L base_url) (data_rows table)
                   \<and> total_count r = int (length (items r))
                   \<and> page_size r = int (length (items r))))
         \<and> (\<forall>r. parse_judgment_search L html base_url pg = Inr r
               \<longrightarrow> items r = List.map_filter (judgment_row L base_url) (data_rows table)
                   \<and> page_size r = int (length (items r))))
   \<and> (or_else (soup_find_where (u ''table'') (has_id (u ''resultTable'')) (bs4_parse L html))
               (soup_find (u ''table'') (bs4_parse L html)) = None
      \<longrightarrow> (\<exists>r. parse_judgment_search L html base_url pg = Inr r
             \<and> items r = [] \<and> total_count r = 0 \<and> page_size r = 10))"
proof (intro conjI impI allI)
  assume t: "or_else (soup_find_where (u ''table'') (has_id (u ''resultTable'')) (bs4_parse L html))
            (soup_find (u ''table'') (bs4_parse L html)) = Some table"
  assume "pagination_region L (bs4_parse L html) = None
           \<or> (\<exists>p. pagination_region L (bs4_parse L html) = Some p
                   \<and> of_count_search L (get_text p) = None)"
  then have "parse_total_count L (bs4_parse L html) = Inr 0"
    by (auto simp: parse_total_count_def)
  then show "\<exists>r. parse_judgment_search L html base_url pg = Inr r
                   \<and> items r = List.map_filter (judgment_row L base_url) (data_rows table)
                   \<and> total_count r = int (length (items r))
                   \<and> page_size r = int (length (items r))"
    using t by (simp add: parse_judgment_search_def judgment_rows_map_filter Let_def)
next
  fix r
  assume t: "or_else (soup_find_where (u ''table'') (has_id (u ''resultTable'')) (bs4_parse L html))
            (soup_find (u ''table'') (bs4_parse L html)) = Some table"
  assume "parse_judgment_search L html base_url pg = Inr r"
  then show "items r = List.map_filter (judgment_row L base_url) (data_rows table)"
    and "page_size r = int (length (items r))"
    using t
    by (auto simp: parse_judgment_search_def judgment_rows_map_filter Let_def split: sum.splits)
next
  assume "or_else (soup_find_where (u ''table'') (has_id (u ''resultTable'')) (bs4_parse L html))
               (soup_find (u ''table'') (bs4_parse L html)) = None"
  then have "parse_judgment_search L html base_url pg = Inr SearchResult_default"
    by (simp add: parse_judgment_search_def)
  then show "\<exists>r. parse_judgment_search L html base_url pg = Inr r
             \<and> items r = [] \<and> total_count r = 0 \<and> page_size r = 10"
    by (simp add: SearchResult_default_def)
qed

text \<open>
  The theorem on three pages: a one-row table with no pagination region; the same table
  followed by \<^verbatim>\<open><span><!-- total -->1 of 7</span>\<close>, a span that has no \<open>string\<close> and so is
  not a pagination region; and a page without a table.
\<close>

theorem judgment_search_counts_witness:
  "pagination_region (ascii_lib judgments_doc) (bs4_parse (ascii_lib judgments_doc) []) = None
   \<and> (\<exists>r. parse_judgment_search (ascii_lib judgments_doc) [] js_BASE_URL 1 = Inr r
          \<and> total_count r = 1 \<and> page_size r = 1)
   \<and> pagination_region (ascii_lib commented_total_doc)
        (bs4_parse (ascii_lib commented_total_doc) []) = None
   \<and> (\<exists>r. parse_judgment_search (ascii_lib commented_total_doc) [] js_BASE_URL 1 = Inr r
          \<and> total_count r = 1 \<and> page_size r = 1)
   \<and> (\<exists>r. parse_judgment_search (ascii_lib no_results_doc) no_results_html js_BASE_URL 1 = Inr r
          \<and> items r = [] \<and> total_count r = 0 \<and> page_size r = 10)"
proof -
  have t1: "or_else (soup_find_where (u ''table'') (has_id (u ''resultTable''))
              (bs4_parse (ascii_lib judgments_doc) []))
           (soup_find (u ''table'') (bs4_parse (ascii_lib judgments_doc) [])) = Some judgments_table"
    by (simp add: ascii_lib_def judgments_doc_def judgments_table_def soup_defs u_def)
  have p1: "pagination_region (ascii_lib judgments_doc) (bs4_parse (ascii_lib judgments_doc) []) = None"
    by (simp add: pagination_region_def ascii_lib_def judgments_doc_def judgments_table_def
          soup_defs u_def)
  have t2: "or_else (soup_find_where (u ''table'') (has_id (u ''resultTable''))
              (bs4_parse (ascii_lib commented_total_doc) []))
           (soup_find (u ''table'') (bs4_parse (ascii_lib commented_total_doc) []))
             = Some judgments_table"
    by (simp add: ascii_lib_def commented_total_doc_def judgments_table_def soup_defs u_def)
  have p2: "pagination_region (ascii_lib commented_total_doc)
              (bs4_parse (ascii_lib commented_total_doc) []) = None"
    by (simp add: pagination_region_def ascii_lib_def commented_total_doc_def judgments_table_def
          soup_defs u_def)
  have n: "length (List.map_filter (judgment_row L js_BASE_URL) (data_rows judgments_table)) = 1"
    for L
    unfolding judgment_rows_count
    by (simp add: judgments_table_def data_rows_def find_all_def is_tag_def u_def)
  have t3: "or_else (soup_find_where (u ''table'') (has_id (u ''resultTable''))
              (bs4_parse (ascii_lib no_results_doc) no_results_html))
           (soup_find (u ''table'') (bs4_parse (ascii_lib no_results_doc) no_results_html)) = None"
    by (simp add: ascii_lib_def no_results_doc_def soup_defs u_def)
  have a: "\<exists>r. parse_judgment_search (ascii_lib judgments_doc) [] js_BASE_URL 1 = Inr r
          \<and> total_count r = 1 \<and> page_size r = 1"
    using judgment_search_counts [of "ascii_lib judgments_doc" "[]" judgments_table js_BASE_URL 1]
      t1 p1 n [of "ascii_lib judgments_doc"]
    by auto
  have b: "\<exists>r. parse_judgment_search (ascii_lib commented_total_doc) [] js_BASE_URL 1 = Inr r
          \<and> total_count r = 1 \<and> page_size r = 1"
    using judgment_search_counts [of "ascii_lib commented_total_doc" "[]" judgments_table
            js_BASE_URL 1] t2 p2 n [of "ascii_lib commented_total_doc"]
    by auto
  have c: "\<exists>r. parse_judgment_search (ascii_lib no_results_doc) no_results_html js_BASE_URL 1 = Inr r
          \<and> items r = [] \<and> total_count r = 0 \<and> page_size r = 10"
    using judgment_search_counts [of "ascii_lib no_results_doc" no_results_html _ js_BASE_URL 1]
      t3 by simp
  show ?thesis using a b c p1 p2 by simp
qed

text \<open>
  C10 as stated fails in its last part: on a page without a table the result carries no
  rows and the default \<open>page_size\<close> 10, not the number of parsed rows.
\<close>

theorem page_size_without_table_counterexample:
  "soup_find (u ''table'') (bs4_parse (ascii_lib no_results_doc) no_results_html) = None
   \<and> parse_judgment_search (ascii_lib no_results_doc) no_results_html js_BASE_URL 1
       = Inr SearchResult_default
   \<and> items SearchResult_default = []
   \<and> page_size SearchResult_default = 10
   \<and> page_size SearchResult_default \<noteq> int (length (items SearchResult_default))"
  by (simp add: parse_judgment_search_def ascii_lib_def no_results_doc_def soup_defs
        SearchResult_default_def u_def)

section \<open>Parties of a legacy case-status row\<close>

lemma split_after_None: "split_after L None t a sep b = whole_word_split L t a sep b"
  by (simp add: split_after_def whole_word_split_def last_char_def)

lemma vs_word_cases:
  "vs_word sep \<longleftrightarrow> (\<exists>x. sep = [x] \<and> is_v x) \<or> (\<exists>x y. sep = [x, y] \<and> is_v x \<and> is_s y)"
  by (auto simp: vs_word_def split: list.splits)

lemma vs_match_sound:
  assumes "vs_match L prev s = Some n"
  shows "vs_word (take n s) \<and> n \<le> length s \<and> boundary L prev (next_char s)
         \<and> boundary L (last_char (take n s)) (next_char (drop n s))"
  using assms
  by (auto simp: vs_match_def vs_word_def next_char_def last_char_def
           split: list.splits if_splits)

lemma vs_match_complete:
  assumes "vs_word sep" "boundary L prev (next_char sep)"
    "boundary L (last_char sep) (next_char b)"
  shows "vs_match L prev (sep @ b) \<noteq> None"
  using assms
  by (auto simp: vs_match_def vs_word_cases next_char_def last_char_def
           split: list.splits if_splits)

lemma vs_match_greedy:
  assumes "vs_match L prev s = Some n" "s = sep' @ b'" "vs_word sep'"
    "boundary L (last_char sep') (next_char b')"
  shows "length sep' \<le> n"
  using assms
  by (auto simp: vs_match_def vs_word_cases next_char_def last_char_def
           split: list.splits if_splits)

lemma vs_split_sound:
  "vs_split L prev t = Some (a, b) \<Longrightarrow>
     \<exists>sep. split_after L prev t a sep b
         \<and> (\<forall>sep' b'. split_after L prev t a sep' b' \<longrightarrow> length sep' \<le> length sep)"
proof (induction t arbitrary: prev a b)
  case Nil
  then show ?case by simp
next
  case (Cons c cs)
  show ?case
  proof (cases "vs_match L prev (c # cs)")
    case (Some n)
    then have ab: "a = []" "b = drop n (c # cs)" using Cons.prems by simp_all
    have m: "vs_word (take n (c # cs))" "boundary L prev (next_char (c # cs))"
      "boundary L (last_char (take n (c # cs))) (next_char (drop n (c # cs)))"
      using vs_match_sound [OF Some] by simp_all
    have "n \<noteq> 0" using m(1) by (cases n) (simp_all add: vs_word_def)
    then have nc: "next_char (take n (c # cs)) = next_char (c # cs)"
      by (cases n) (simp_all add: next_char_def)
    have sa: "split_after L prev (c # cs) [] (take n (c # cs)) (drop n (c # cs))"
      unfolding split_after_def using m nc by simp
    have "length sep' \<le> length (take n (c # cs))"
      if "split_after L prev (c # cs) [] sep' b'" for sep' b'
    proof -
      have "length sep' \<le> n"
        using that vs_match_greedy [OF Some, of sep' b'] by (simp add: split_after_def)
      moreover have "n \<le> length (c # cs)" using vs_match_sound [OF Some] by simp
      ultimately show ?thesis by simp
    qed
    then show ?thesis using ab sa by blast
  next
    case None
    then obtain a' where r: "vs_split L (Some c) cs = Some (a', b)" "a = c # a'"
      using Cons.prems by (auto split: option.splits)
    then obtain sep where s: "split_after L (Some c) cs a' sep b"
      and g: "\<forall>sep' b'. split_after L (Some c) cs a' sep' b' \<longrightarrow> length sep' \<le> length sep"
      using Cons.IH by blast
    have step: "split_after L prev (c # cs) (c # a') sep' b' = split_after L (Some c) cs a' sep' b'"
      for sep' b'
      by (auto simp: split_after_def)
    show ?thesis using r s g step by blast
  qed
qed

lemma vs_split_leftmost:
  "vs_split L prev t = Some (a, b) \<Longrightarrow> split_after L prev t a' sep' b' \<Longrightarrow> length a \<le> length a'"
proof (induction t arbitrary: prev a b a')
  case Nil
  then show ?case by simp
next
  case (Cons c cs)
  show ?case
  proof (cases "vs_match L prev (c # cs)")
    case (Some n)
    then show ?thesis using Cons.prems by simp
  next
    case None
    then obtain a2 where r: "vs_split L (Some c) cs = Some (a2, b)" "a = c # a2"
      using Cons.prems by (auto split: option.splits)
    show ?thesis
    proof (cases a')
      case Nil
      then have "vs_match L prev (c # cs) \<noteq> None"
        using Cons.prems(2) vs_match_complete [of sep' L prev b']
        by (auto simp: split_after_def)
      then show ?thesis using None by simp
    next
      case (Cons x xs)
      then have "split_after L (Some c) cs xs sep' b'"
        using Cons.prems(2) by (auto simp: split_after_def)
      then have "length a2 \<le> length xs" using Cons.IH r(1) by blast
      then show ?thesis using r(2) Cons by simp
    qed
  qed
qed

lemma vs_split_complete:
  "split_after L prev t a' sep' b' \<Longrightarrow> vs_split L prev t \<noteq> None"
proof (induction t arbitrary: prev a')
  case Nil
  then show ?case by (auto simp: split_after_def vs_word_cases)
next
  case (Cons c cs)
  show ?case
  proof (cases "vs_match L prev (c # cs)")
    case (Some n)
    then show ?thesis by simp
  next
    case None
    show ?thesis
    proof (cases a')
      case Nil
      then have "vs_match L prev (c # cs) \<noteq> None"
        using Cons.prems vs_match_complete [of sep' L prev b']
        by (auto simp: split_after_def)
      then show ?thesis using None by simp
    next
      case (Cons x xs)
      then have "split_after L (Some c) cs xs sep' b'"
        using Cons.prems by (auto simp: split_after_def)
      then have "vs_split L (Some c) cs \<noteq> None" using Cons.IH by blast
      then show ?thesis using None by (auto split: option.splits)
    qed
  qed
qed

lemma vs_split_spec:
  assumes "whole_word_split L t a sep b"
    and "\<forall>a' sep' b'. whole_word_split L t a' sep' b' \<longrightarrow>
           length a < length a' \<or> (length a = length a' \<and> length sep' \<le> length sep)"
  shows "vs_split L None t = Some (a, b)"
proof -
  have sa: "split_after L None t a sep b" using assms(1) by (simp add: split_after_None)
  obtain a2 b2 where r: "vs_split L None t = Some (a2, b2)"
    using vs_split_complete [OF sa] by (cases "vs_split L None t") auto
  obtain sep2 where s2: "split_after L None t a2 sep2 b2"
    and g2: "\<forall>sep' b'. split_after L None t a2 sep' b' \<longrightarrow> length sep' \<le> length sep2"
    using vs_split_sound [OF r] by blast
  have le1: "length a2 \<le> length a" using vs_split_leftmost [OF r sa] .
  have "length a < length a2 \<or> (length a = length a2 \<and> length sep2 \<le> length sep)"
    using assms(2) s2 unfolding split_after_None by blast
  then have la: "length a = length a2" and ls: "length sep2 \<le> length sep" using le1 by auto
  have t1: "t = a @ sep @ b" and t2: "t = a2 @ sep2 @ b2"
    using sa s2 by (simp_all add: split_after_def)
  have aeq: "a = a2" using t1 t2 la by (metis append_eq_append_conv)
  then have "length sep \<le> length sep2" using g2 sa by blast
  then have "length sep = length sep2" using ls by simp
  moreover have "sep @ b = sep2 @ b2" using t1 t2 aeq by simp
  ultimately have "b = b2" by (metis append_eq_append_conv)
  then show ?thesis using r aeq by simp
qed

lemma vs_split_none:
  assumes "\<forall>a' sep' b'. \<not> whole_word_split L t a' sep' b'"
  shows "vs_split L None t = None"
proof (cases "vs_split L None t")
  case None
  then show ?thesis .
next
  case (Some ab)
  obtain a b where "ab = (a, b)" by (cases ab)
  then have "\<exists>sep. split_after L None t a sep b" using vs_split_sound Some by blast
  then show ?thesis using assms by (simp add: split_after_None)
qed

lemma vs_split_spec_conv:
  assumes "vs_split L None t = Some (a, b)"
  shows "\<exists>sep. whole_word_split L t a sep b
           \<and> (\<forall>a' sep' b'. whole_word_split L t a' sep' b' \<longrightarrow>
                length a < length a' \<or> (length a = length a' \<and> length sep' \<le> length sep))"
proof -
  obtain sep where s: "split_after L None t a sep b"
    and g: "\<forall>sep' b'. split_after L None t a sep' b' \<longrightarrow> length sep' \<le> length sep"
    using vs_split_sound [OF assms] by blast
  have "length a < length a' \<or> (length a = length a' \<and> length sep' \<le> length sep)"
    if w: "whole_word_split L t a' sep' b'" for a' sep' b'
  proof -
    have sa: "split_after L None t a' sep' b'" using w by (simp add: split_after_None)
    have le: "length a \<le> length a'" using vs_split_leftmost [OF assms sa] .
    show ?thesis
    proof (cases "length a = length a'")
      case True
      have "t = a @ sep @ b" "t = a' @ sep' @ b'"
        using s sa by (simp_all add: split_after_def)
      then have "a = a'" using True by (metis append_eq_append_conv)
      then show ?thesis using g sa True by blast
    next
      case False
      then show ?thesis using le by simp
    qed
  qed
  then show ?thesis using s unfolding split_after_None by blast
qed

lemmas vs_defs = vs_match_def boundary_def word_at_def is_v_def is_s_def next_char_def
  last_char_def vs_word_def ascii_word_def ascii_digit_def

text \<open>
  C8 (as amended). A party cell with at least two \<open>strong\<close> sub-spans yields the cleaned
  texts of the first two. Otherwise the cleaned text of the cell is split at its leftmost
  whole word \<open>v\<close> or \<open>vs\<close> (in either case; the longer word where both end at a word
  boundary) into the stripped text before and the stripped text after that word; a text
  without such a word yields the whole text and an empty respondent.
\<close>

theorem extract_parties_split:
  "(2 \<le> length (find_all (u ''strong'') cell) \<longrightarrow>
      extract_parties L cell
        = (clean_text (get_text (find_all (u ''strong'') cell ! 0)),
           clean_text (get_text (find_all (u ''strong'') cell ! 1))))
   \<and> (length (find_all (u ''strong'') cell) < 2
        \<and> whole_word_split L (clean_text (get_text cell)) a sep b
        \<and> (\<forall>a' sep' b'. whole_word_split L (clean_text (get_text cell)) a' sep' b' \<longrightarrow>
              length a < length a' \<or> (length a = length a' \<and> length sep' \<le> length sep))
      \<longrightarrow> extract_parties L cell = (str_strip a, str_strip b))
   \<and> (length (find_all (u ''strong'') cell) < 2
        \<and> (\<forall>a' sep' b'. \<not> whole_word_split L (clean_text (get_text cell)) a' sep' b')
      \<longrightarrow> extract_parties L cell = (clean_text (get_text cell), []))"
proof (intro conjI impI)
  assume "2 \<le> length (find_all (u ''strong'') cell)"
  then show "extract_parties L cell
        = (clean_text (get_text (find_all (u ''strong'') cell ! 0)),
           clean_text (get_text (find_all (u ''strong'') cell ! 1)))"
    by (simp add: extract_parties_def Let_def)
next
  assume h: "length (find_all (u ''strong'') cell) < 2
        \<and> whole_word_split L (clean_text (get_text cell)) a sep b
        \<and> (\<forall>a' sep' b'. whole_word_split L (clean_text (get_text cell)) a' sep' b' \<longrightarrow>
              length a < length a' \<or> (length a = length a' \<and> length sep' \<le> length sep))"
  then have "vs_split L None (clean_text (get_text cell)) = Some (a, b)"
    using vs_split_spec by blast
  then show "extract_parties L cell = (str_strip a, str_strip b)"
    using h by (simp add: extract_parties_def Let_def)
next
  assume h: "length (find_all (u ''strong'') cell) < 2
        \<and> (\<forall>a' sep' b'. \<not> whole_word_split L (clean_text (get_text cell)) a' sep' b')"
  then have "vs_split L None (clean_text (get_text cell)) = None"
    using vs_split_none by blast
  then show "extract_parties L cell = (clean_text (get_text cell), [])"
    using h by (simp add: extract_parties_def Let_def)
qed

theorem extract_parties_split_witness:
  "extract_parties (ascii_lib []) strong_cell = (u ''ABC Industries Ltd'', u ''Union of India'')
   \<and> extract_parties (ascii_lib []) party_cell = (u ''ABC Industries'', u ''Union of India'')
   \<and> extract_parties (ascii_lib []) plain_cell = (u ''Government of X'', [])"
proof -
  let ?L = "ascii_lib []"
  have s2: "2 \<le> length (find_all (u ''strong'') strong_cell)"
    by (simp add: strong_cell_def find_all_def is_tag_def u_def)
  have t1: "clean_text (get_text (find_all (u ''strong'') strong_cell ! 0)) = u ''ABC Industries Ltd''"
    "clean_text (get_text (find_all (u ''strong'') strong_cell ! 1)) = u ''Union of India''"
    by (simp_all add: strong_cell_def find_all_def is_tag_def clean_text_def str_defs)
  have p0: "length (find_all (u ''strong'') party_cell) < 2"
    by (simp add: party_cell_def find_all_def is_tag_def u_def)
  have pt: "clean_text (get_text party_cell) = u ''ABC Industries v Union of India''"
    by (simp add: party_cell_def clean_text_def str_defs)
  have pv: "vs_split ?L None (u ''ABC Industries v Union of India'')
              = Some (u ''ABC Industries '', u '' Union of India'')"
    by (simp add: ascii_lib_def vs_defs u_def)
  obtain sep where w: "whole_word_split ?L (clean_text (get_text party_cell))
                          (u ''ABC Industries '') sep (u '' Union of India'')"
    and lm: "\<forall>a' sep' b'. whole_word_split ?L (clean_text (get_text party_cell)) a' sep' b' \<longrightarrow>
                length (u ''ABC Industries '') < length a'
                \<or> (length (u ''ABC Industries '') = length a' \<and> length sep' \<le> length sep)"
    using vs_split_spec_conv [OF pv] unfolding pt by blast
  have st: "str_strip (u ''ABC Industries '') = u ''ABC Industries''"
    "str_strip (u '' Union of India'') = u ''Union of India''"
    by (simp_all add: str_defs)
  have q0: "length (find_all (u ''strong'') plain_cell) < 2"
    by (simp add: plain_cell_def find_all_def is_tag_def u_def)
  have qt: "clean_text (get_text plain_cell) = u ''Government of X''"
    by (simp add: plain_cell_def clean_text_def str_defs)
  have qv: "vs_split ?L None (u ''Government of X'') = None"
    by (simp add: ascii_lib_def vs_defs u_def)
  have qn: "\<forall>a' sep' b'. \<not> whole_word_split ?L (clean_text (get_text plain_cell)) a' sep' b'"
    using vs_split_complete [of ?L None "u ''Government of X''"] qv
    unfolding qt split_after_None by blast
  show ?thesis
    using extract_parties_split [of strong_cell ?L] s2 t1
      extract_parties_split [of party_cell ?L "u ''ABC Industries ''" sep "u '' Union of India''"]
      p0 w lm st
      extract_parties_split [of plain_cell ?L] q0 qn qt
    by (simp del: One_nat_def)
qed

text \<open>
  C8 as stated fails: a cell without sub-spans whose text joins the parties by \<open>v\<close> holds
  no \<open>vs\<close>, and is split all the same.
\<close>

theorem extract_parties_v_counterexample:
  "find_all (u ''strong'') party_cell = []
   \<and> \<not> str_contains (u ''vs'') (ascii_lower (get_text party_cell))
   \<and> extract_parties (ascii_lib []) party_cell = (u ''ABC Industries'', u ''Union of India'')
   \<and> extract_parties (ascii_lib []) party_cell \<noteq> (get_text party_cell, [])"
  by (simp add: extract_parties_def party_cell_def find_all_def is_tag_def clean_text_def
        ascii_lib_def ascii_lower_def vs_defs str_defs)

section \<open>Retry on a rejected captcha\<close>

lemma sent_append: "sent (w\<lparr>issued := i, trace := trace w @ [Slept d, Sent rq]\<rparr>) = sent w @ [rq]"
  by (simp add: sent_def List.map_filter_def)

lemma http_get_answered:
  assumes "1 \<le> max_retries cfg"
    and "net (issued w) \<lparr>r_method = ''GET'', r_url = url, r_payload = kw\<rparr> = Returned resp"
  shows "\<exists>w1. http_get cfg net url kw w = (Inr resp, w1)
           \<and> sent w1 = sent w @ [\<lparr>r_method = ''GET'', r_url = url, r_payload = kw\<rparr>]
           \<and> issued w1 = Suc (issued w)"
  using request_returned [where cfg = cfg and net = net and w = w and resp = resp
      and rq = "\<lparr>r_method = ''GET'', r_url = url, r_payload = kw\<rparr>"] assms
  by (simp add: http_get_def sent_append)

lemma http_post_answered:
  assumes "1 \<le> max_retries cfg"
    and "net (issued w) \<lparr>r_method = ''POST'', r_url = url, r_payload = kw\<rparr> = Returned resp"
  shows "\<exists>w1. http_post cfg net url kw w = (Inr resp, w1)
           \<and> sent w1 = sent w @ [\<lparr>r_method = ''POST'', r_url = url, r_payload = kw\<rparr>]
           \<and> issued w1 = Suc (issued w)"
  using request_returned [where cfg = cfg and net = net and w = w and resp = resp
      and rq = "\<lparr>r_method = ''POST'', r_url = url, r_payload = kw\<rparr>"] assms
  by (simp add: http_post_def sent_append)

lemma captcha_attempts_all_rejected:
  assumes m: "1 \<le> max_retries cfg"
    and answered: "\<forall>n rq. \<exists>resp. net n rq = Returned resp"
    and rejected: "\<forall>n rq resp. r_method rq = ''POST'' \<and> net n rq = Returned resp
                     \<longrightarrow> invalid_captcha resp"
  shows "fst (captcha_attempts cfg net solve url fb bound atts w) = Inl (captcha_failed_after bound)
         \<and> map method_url (sent (snd (captcha_attempts cfg net solve url fb bound atts w)))
             = map method_url (sent w) @ concat (replicate (length atts) (hc_round url))"
proof (induction atts arbitrary: w)
  case Nil
  then show ?case by simp
next
  case (Cons attempt rest)
  obtain r1 where r1: "net (issued w) \<lparr>r_method = ''GET'', r_url = hc_MAIN_PAGE_URL,
                          r_payload = NoPayload\<rparr> = Returned r1"
    using answered by blast
  obtain w1 where w1: "http_get cfg net hc_MAIN_PAGE_URL NoPayload w = (Inr r1, w1)"
    and s1: "sent w1 = sent w @ [\<lparr>r_method = ''GET'', r_url = hc_MAIN_PAGE_URL,
                          r_payload = NoPayload\<rparr>]"
    using http_get_answered [where cfg = cfg and net = net and w = w and resp = r1
        and url = hc_MAIN_PAGE_URL and kw = NoPayload] m r1 by blast
  obtain r2 where r2: "net (issued w1) \<lparr>r_method = ''GET'', r_url = hc_CAPTCHA_IMAGE_URL,
                          r_payload = NoPayload\<rparr> = Returned r2"
    using answered by blast
  obtain w2 where w2: "http_get cfg net hc_CAPTCHA_IMAGE_URL NoPayload w1 = (Inr r2, w2)"
    and s2: "sent w2 = sent w1 @ [\<lparr>r_method = ''GET'', r_url = hc_CAPTCHA_IMAGE_URL,
                          r_payload = NoPayload\<rparr>]"
    using http_get_answered [where cfg = cfg and net = net and w = w1 and resp = r2
        and url = hc_CAPTCHA_IMAGE_URL and kw = NoPayload] m r2 by blast
  define form where "form = FormData (fb (solve (resp_content r2)))"
  obtain r3 where r3: "net (issued w2) \<lparr>r_method = ''POST'', r_url = url,
                          r_payload = form\<rparr> = Returned r3"
    using answered by blast
  obtain w3 where w3: "http_post cfg net url form w2 = (Inr r3, w3)"
    and s3: "sent w3 = sent w2 @ [\<lparr>r_method = ''POST'', r_url = url, r_payload = form\<rparr>]"
    using http_post_answered [where cfg = cfg and net = net and w = w2 and resp = r3
        and url = url and kw = form] m r3 by blast
  have "r_method \<lparr>r_method = ''POST'', r_url = url, r_payload = form\<rparr> = ''POST''
          \<and> net (issued w2) \<lparr>r_method = ''POST'', r_url = url, r_payload = form\<rparr> = Returned r3"
    using r3 by simp
  then have rej: "invalid_captcha r3" using rejected by blast
  have step: "captcha_attempts cfg net solve url fb bound (attempt # rest) w
        = captcha_attempts cfg net solve url fb bound rest w3"
    using w1 w2 w3 rej
    by (simp add: hc_init_session_def hc_solve_captcha_def form_def)
  have tr: "map method_url (sent w3) = map method_url (sent w) @ hc_round url"
    by (simp add: s1 s2 s3 method_url_def hc_round_def)
  show ?case
    unfolding step using Cons.IH [of w3] by (simp add: tr)
qed

text \<open>One round of the loop, when every request is answered.\<close>

lemma captcha_round:
  assumes m: "1 \<le> max_retries cfg"
    and answered: "\<forall>n rq. \<exists>resp. net n rq = Returned resp"
  shows "\<exists>rq resp w3.
           r_method rq = ''POST'' \<and> net (issued w + 2) rq = Returned resp
           \<and> issued w3 = issued w + 3
           \<and> map method_url (sent w3) = map method_url (sent w) @ hc_round url
           \<and> captcha_attempts cfg net solve url fb bound (attempt # rest) w
               = (if invalid_captcha resp
                  then captcha_attempts cfg net solve url fb bound rest w3
                  else (Inr resp, w3))"
proof -
  obtain r1 where r1: "net (issued w) \<lparr>r_method = ''GET'', r_url = hc_MAIN_PAGE_URL,
                          r_payload = NoPayload\<rparr> = Returned r1"
    using answered by blast
  obtain w1 where w1: "http_get cfg net hc_MAIN_PAGE_URL NoPayload w = (Inr r1, w1)"
    and s1: "sent w1 = sent w @ [\<lparr>r_method = ''GET'', r_url = hc_MAIN_PAGE_URL,
                          r_payload = NoPayload\<rparr>]"
    and i1: "issued w1 = Suc (issued w)"
    using http_get_answered [where cfg = cfg and net = net and w = w and resp = r1
        and url = hc_MAIN_PAGE_URL and kw = NoPayload] m r1 by blast
  obtain r2 where r2: "net (issued w1) \<lparr>r_method = ''GET'', r_url = hc_CAPTCHA_IMAGE_URL,
                          r_payload = NoPayload\<rparr> = Returned r2"
    using answered by blast
  obtain w2 where w2: "http_get cfg net hc_CAPTCHA_IMAGE_URL NoPayload w1 = (Inr r2, w2)"
    and s2: "sent w2 = sent w1 @ [\<lparr>r_method = ''GET'', r_url = hc_CAPTCHA_IMAGE_URL,
                          r_payload = NoPayload\<rparr>]"
    and i2: "issued w2 = Suc (issued w1)"
    using http_get_answered [where cfg = cfg and net = net and w = w1 and resp = r2
        and url = hc_CAPTCHA_IMAGE_URL and kw = NoPayload] m r2 by blast
  define form where "form = FormData (fb (solve (resp_content r2)))"
  define rq where "rq = \<lparr>r_method = ''POST'', r_url = url, r_payload = form\<rparr>"
  obtain r3 where r3: "net (issued w2) rq = Returned r3"
    using answered by blast
  obtain w3 where w3: "http_post cfg net url form w2 = (Inr r3, w3)"
    and s3: "sent w3 = sent w2 @ [rq]"
    and i3: "issued w3 = Suc (issued w2)"
    using http_post_answered [where cfg = cfg and net = net and w = w2 and resp = r3
        and url = url and kw = form] m r3 unfolding rq_def by blast
  have step: "captcha_attempts cfg net solve url fb bound (attempt # rest) w
        = (if invalid_captcha r3
           then captcha_attempts cfg net solve url fb bound rest w3
           else (Inr r3, w3))"
    using w1 w2 w3
    by (simp add: hc_init_session_def hc_solve_captcha_def form_def)
  have tr: "map method_url (sent w3) = map method_url (sent w) @ hc_round url"
    by (simp add: s1 s2 s3 method_url_def hc_round_def rq_def)
  have iss: "issued w3 = issued w + 3" "issued w2 = issued w + 2" using i1 i2 i3 by simp_all
  have "r_method rq = ''POST''" by (simp add: rq_def)
  then show ?thesis
    using r3 step tr iss by (intro exI [of _ rq] exI [of _ r3] exI [of _ w3]) simp
qed

lemma captcha_attempts_retry_then_accept:
  assumes m: "1 \<le> max_retries cfg"
    and answered: "\<forall>n rq. \<exists>resp. net n rq = Returned resp"
    and "j < length atts"
    and "\<forall>i<j. \<forall>rq resp. r_method rq = ''POST'' \<and> net (issued w + 3 * i + 2) rq = Returned resp
                     \<longrightarrow> invalid_captcha resp"
    and "\<forall>rq resp. r_method rq = ''POST'' \<and> net (issued w + 3 * j + 2) rq = Returned resp
                     \<longrightarrow> \<not> invalid_captcha resp"
  shows "\<exists>rq resp. r_method rq = ''POST'' \<and> net (issued w + 3 * j + 2) rq = Returned resp
           \<and> fst (captcha_attempts cfg net solve url fb bound atts w) = Inr resp
           \<and> map method_url (sent (snd (captcha_attempts cfg net solve url fb bound atts w)))
               = map method_url (sent w) @ concat (replicate (Suc j) (hc_round url))"
  using assms(3,4,5)
proof (induction j arbitrary: atts w)
  case 0
  then obtain attempt rest where atts: "atts = attempt # rest" by (cases atts) auto
  obtain rq resp w3 where r: "r_method rq = ''POST''" "net (issued w + 2) rq = Returned resp"
    and tr: "map method_url (sent w3) = map method_url (sent w) @ hc_round url"
    and step: "captcha_attempts cfg net solve url fb bound (attempt # rest) w
               = (if invalid_captcha resp
                  then captcha_attempts cfg net solve url fb bound rest w3
                  else (Inr resp, w3))"
    using captcha_round [OF m answered, where w = w and url = url and solve = solve and fb = fb
        and bound = bound and attempt = attempt and rest = rest] by blast
  have "\<not> invalid_captcha resp" using "0.prems"(3) [rule_format, of rq resp] r by simp
  then have "captcha_attempts cfg net solve url fb bound atts w = (Inr resp, w3)"
    using step atts by simp
  then show ?case
    using r tr by (intro exI [of _ rq] exI [of _ resp]) simp
next
  case (Suc j)
  then obtain attempt rest where atts: "atts = attempt # rest" by (cases atts) auto
  obtain rq resp w3 where r: "r_method rq = ''POST''" "net (issued w + 2) rq = Returned resp"
    and iss: "issued w3 = issued w + 3"
    and tr: "map method_url (sent w3) = map method_url (sent w) @ hc_round url"
    and step: "captcha_attempts cfg net solve url fb bound (attempt # rest) w
               = (if invalid_captcha resp
                  then captcha_attempts cfg net solve url fb bound rest w3
                  else (Inr resp, w3))"
    using captcha_round [OF m answered, where w = w and url = url and solve = solve and fb = fb
        and bound = bound and attempt = attempt and rest = rest] by blast
  have "invalid_captcha resp" using Suc.prems(2) [rule_format, of 0 rq resp] r by simp
  then have step': "captcha_attempts cfg net solve url fb bound atts w
               = captcha_attempts cfg net solve url fb bound rest w3"
    using step atts by simp
  have len: "j < length rest" using Suc.prems(1) atts by simp
  have idx: "issued w3 + 3 * i + 2 = issued w + 3 * Suc i + 2" for i using iss by simp
  have rej: "\<forall>i<j. \<forall>rq resp. r_method rq = ''POST'' \<and> net (issued w3 + 3 * i + 2) rq = Returned resp
                     \<longrightarrow> invalid_captcha resp"
  proof (intro allI impI)
    fix i rq resp
    assume "i < j" "r_method rq = ''POST'' \<and> net (issued w3 + 3 * i + 2) rq = Returned resp"
    then show "invalid_captcha resp"
      using Suc.prems(2) [rule_format, of "Suc i" rq resp] idx [of i] by simp
  qed
  have acc: "\<forall>rq resp. r_method rq = ''POST'' \<and> net (issued w3 + 3 * j + 2) rq = Returned resp
                     \<longrightarrow> \<not> invalid_captcha resp"
    using Suc.prems(3) idx [of j] by simp
  obtain rq' resp' where "r_method rq' = ''POST''"
      "net (issued w3 + 3 * j + 2) rq' = Returned resp'"
      "fst (captcha_attempts cfg net solve url fb bound rest w3) = Inr resp'"
      "map method_url (sent (snd (captcha_attempts cfg net solve url fb bound rest w3)))
               = map method_url (sent w3) @ concat (replicate (Suc j) (hc_round url))"
    using Suc.IH [OF len rej acc] by blast
  then show ?case
    unfolding step' tr using idx [of j] by (intro exI [of _ rq'] exI [of _ resp']) simp
qed

lemma validate_captcha_refused:
  assumes m: "1 \<le> max_retries cfg"
    and answered: "\<forall>n rq. \<exists>resp. net n rq = Returned resp"
    and refused: "\<forall>n rq resp. r_method rq = ''POST'' \<and> net n rq = Returned resp
                     \<longrightarrow> captcha_refused L resp"
  shows "\<exists>tok2 w2. validate_captcha L cfg net captcha search_text tok w = (Inr (False, tok2), w2)
           \<and> map method_url (sent w2) = map method_url (sent w) @ [(''POST'', js_CHECK_CAPTCHA_URL)]"
proof -
  define form where "form = Content (check_captcha_form captcha search_text (u ''PHRASE''))"
  define rq where "rq = \<lparr>r_method = ''POST'', r_url = js_CHECK_CAPTCHA_URL, r_payload = form\<rparr>"
  obtain r where r: "net (issued w) rq = Returned r" using answered by blast
  obtain w2 where w2: "http_post cfg net js_CHECK_CAPTCHA_URL form w = (Inr r, w2)"
    and s2: "sent w2 = sent w @ [rq]"
    using http_post_answered [where cfg = cfg and net = net and w = w and resp = r
        and url = js_CHECK_CAPTCHA_URL and kw = form] m r unfolding rq_def by blast
  have "r_method rq = ''POST'' \<and> net (issued w) rq = Returned r" using r by (simp add: rq_def)
  then have ref: "captcha_refused L r" using refused by blast
  have tr: "map method_url (sent w2) = map method_url (sent w) @ [(''POST'', js_CHECK_CAPTCHA_URL)]"
    by (simp add: s2 method_url_def rq_def)
  have "\<exists>tok2. validate_captcha L cfg net captcha search_text tok w = (Inr (False, tok2), w2)"
    using ref w2
    by (auto simp: validate_captcha_def captcha_refused_def form_def
             split: option.splits json.splits)
  then show ?thesis using tr by blast
qed

lemma search_attempts_all_refused:
  assumes m: "1 \<le> max_retries cfg"
    and answered: "\<forall>n rq. \<exists>resp. net n rq = Returned resp"
    and refused: "\<forall>n rq resp. r_method rq = ''POST'' \<and> net n rq = Returned resp
                     \<longrightarrow> captcha_refused L resp"
    and solved: "\<forall>img. solve img \<noteq> []"
  shows "fst (search_attempts L cfg net solve search_text atts tok w) = Inr None
         \<and> map method_url (sent (snd (search_attempts L cfg net solve search_text atts tok w)))
             = map method_url (sent w) @ concat (replicate (length atts) js_round)"
proof (induction atts arbitrary: tok w)
  case Nil
  then show ?case by simp
next
  case (Cons attempt rest)
  obtain r1 where r1: "net (issued w) \<lparr>r_method = ''GET'', r_url = js_CAPTCHA_IMAGE_URL,
                          r_payload = NoPayload\<rparr> = Returned r1"
    using answered by blast
  obtain w1 where w1: "http_get cfg net js_CAPTCHA_IMAGE_URL NoPayload w = (Inr r1, w1)"
    and s1: "sent w1 = sent w @ [\<lparr>r_method = ''GET'', r_url = js_CAPTCHA_IMAGE_URL,
                          r_payload = NoPayload\<rparr>]"
    using http_get_answered [where cfg = cfg and net = net and w = w and resp = r1
        and url = js_CAPTCHA_IMAGE_URL and kw = NoPayload] m r1 by blast
  obtain tok2 w2 where v: "validate_captcha L cfg net (solve (resp_content r1)) search_text tok w1
                              = (Inr (False, tok2), w2)"
    and s2: "map method_url (sent w2) = map method_url (sent w1) @ [(''POST'', js_CHECK_CAPTCHA_URL)]"
    using validate_captcha_refused [OF m answered refused] by blast
  have ne: "solve (resp_content r1) \<noteq> []" using solved by blast
  have step: "search_attempts L cfg net solve search_text (attempt # rest) tok w
        = search_attempts L cfg net solve search_text rest tok2 w2"
    using w1 v ne by (simp add: js_solve_captcha_def)
  have tr: "map method_url (sent w2) = map method_url (sent w) @ js_round"
    by (simp add: s1 s2 method_url_def js_round_def)
  show ?case
    unfolding step using Cons.IH [of tok2 w2] by (simp add: tr)
qed

lemma post_with_captcha_retry_all_rejected:
  assumes m: "1 \<le> max_retries cfg"
    and answered: "\<forall>n rq. \<exists>resp. net n rq = Returned resp"
    and rejected: "\<forall>n rq resp. r_method rq = ''POST'' \<and> net n rq = Returned resp
                     \<longrightarrow> invalid_captcha resp"
  shows "\<exists>w'. post_with_captcha_retry cfg net solve url fb bound w
                 = (Inl (captcha_failed_after bound), w')
              \<and> map method_url (sent w')
                   = map method_url (sent w) @ concat (replicate (nat bound) (hc_round url))"
proof -
  define res where "res = post_with_captcha_retry cfg net solve url fb bound w"
  have "fst res = Inl (captcha_failed_after bound)
        \<and> map method_url (sent (snd res))
            = map method_url (sent w) @ concat (replicate (nat bound) (hc_round url))"
    using captcha_attempts_all_rejected [OF m answered rejected, of solve url fb bound
            "[0 ..< nat bound]" w]
    by (simp add: res_def post_with_captcha_retry_def)
  then show ?thesis
    unfolding res_def [symmetric] by (cases res) simp
qed

lemma search_all_refused:
  assumes m: "1 \<le> max_retries cfg"
    and answered: "\<forall>n rq. \<exists>resp. net n rq = Returned resp"
    and refused: "\<forall>n rq resp. r_method rq = ''POST'' \<and> net n rq = Returned resp
                     \<longrightarrow> captcha_refused L resp"
    and solved: "\<forall>img. solve img \<noteq> []"
  shows "fst (search L cfg net solve search_text search_opt ctype bound tok w)
           = Inr SearchResult_default
         \<and> map method_url (sent (snd (search L cfg net solve search_text search_opt ctype bound
                                          tok w)))
             = map method_url (sent w) @ (''GET'', js_MAIN_PAGE_URL)
                 # concat (replicate (nat bound) js_round)"
proof -
  obtain r1 where r1: "net (issued w) \<lparr>r_method = ''GET'', r_url = js_MAIN_PAGE_URL,
                          r_payload = NoPayload\<rparr> = Returned r1"
    using answered by blast
  obtain w1 where w1: "http_get cfg net js_MAIN_PAGE_URL NoPayload w = (Inr r1, w1)"
    and s1: "sent w1 = sent w @ [\<lparr>r_method = ''GET'', r_url = js_MAIN_PAGE_URL,
                          r_payload = NoPayload\<rparr>]"
    using http_get_answered [where cfg = cfg and net = net and w = w and resp = r1
        and url = js_MAIN_PAGE_URL and kw = NoPayload] m r1 by blast
  define res where "res = search_attempts L cfg net solve search_text [0 ..< nat bound] tok w1"
  have a: "fst res = Inr None"
    and b: "map method_url (sent (snd res))
             = map method_url (sent w1) @ concat (replicate (nat bound) js_round)"
    using search_attempts_all_refused [OF m answered refused solved, of search_text
            "[0 ..< nat bound]" tok w1]
    by (simp_all add: res_def)
  obtain w2 where w2: "res = (Inr None, w2)" using a by (cases res) simp
  have "search L cfg net solve search_text search_opt ctype bound tok w
          = (Inr SearchResult_default, w2)"
    using w1 w2 by (simp add: search_def js_init_session_def res_def [symmetric])
  then show ?thesis
    using b w2 s1 by (simp add: method_url_def)
qed

lemma fst_case_Inl:
  "fst p = Inl e \<Longrightarrow>
     fst (case p of (Inl e, w1) \<Rightarrow> (Inl e, w1) | (Inr r, w1) \<Rightarrow> g r w1) = Inl e"
  by (cases p) auto

lemma fast_config_retries: "1 \<le> max_retries fast_config"
  by (simp add: fast_config_def)

lemma rejecting_portal_answers: "\<forall>n rq. \<exists>resp. rejecting_portal n rq = Returned resp"
  by (simp add: rejecting_portal_def)

lemma rejecting_portal_rejects:
  "\<forall>n rq resp. r_method rq = ''POST'' \<and> rejecting_portal n rq = Returned resp
     \<longrightarrow> invalid_captcha resp"
  by (auto simp: rejecting_portal_def invalid_captcha_def str_defs)

lemma accepted_response_valid: "\<not> invalid_captcha accepted_response"
  by (simp add: accepted_response_def body_no_records_def invalid_captcha_def str_defs)

lemma once_rejecting_portal_answers: "\<forall>n rq. \<exists>resp. once_rejecting_portal n rq = Returned resp"
  by (simp add: once_rejecting_portal_def rejecting_portal_def)

lemma refusing_portal_answers: "\<forall>n rq. \<exists>resp. refusing_portal n rq = Returned resp"
  by (simp add: refusing_portal_def)

lemma refusing_portal_refuses:
  "\<forall>n rq resp. r_method rq = ''POST'' \<and> refusing_portal n rq = Returned resp
     \<longrightarrow> captcha_refused (ascii_lib []) resp"
proof -
  have \<open>captcha_refused (ascii_lib [])
          \<lparr>status_code = 200, resp_text = u ''{"captcha_status":"N","errormsg":"Invalid Captcha"}'',
           resp_content = [1, 2, 3]\<rparr>\<close>
    by (simp add: captcha_refused_def ascii_lib_def dict_get_def json_defs str_defs)
  then show ?thesis by (auto simp: refusing_portal_def)
qed

lemma auto_solver_solves: "\<forall>img. auto_solver img \<noteq> []"
  by (simp add: auto_solver_def u_def)

text \<open>
  C1 (as amended). Let every request be answered and the transport make at least one
  attempt. For the HC Services operations (\<open>_post_with_captcha_retry\<close>): each round loads
  the main page anew, fetches a new captcha and posts the form; when the first \<open>j\<close>
  submissions are rejected and the next is not, with \<open>j\<close> below the bound, the accepted
  response is returned after \<open>j + 1\<close> rounds; when every submission is rejected, the
  loop ends after \<open>bound\<close> rounds and \<open>CaptchaError\<close> is raised, and so it is by
  \<open>case_status\<close>, \<open>case_status_by_party\<close>, \<open>court_orders\<close> and \<open>cause_list\<close> with
  their bound 3. For the judgment search: the main page is loaded once, every round
  fetches a new captcha within that session and submits it, and when every submission is
  refused \<open>search\<close> returns the empty \<open>SearchResult()\<close> after \<open>max_captcha_attempts\<close>
  rounds.
\<close>

theorem captcha_retry_policy:
  assumes "1 \<le> max_retries cfg"
    and "\<forall>n rq. \<exists>resp. net n rq = Returned resp"
  shows
   "(int j < bound
      \<and> (\<forall>i<j. \<forall>rq resp. r_method rq = ''POST'' \<and> net (issued w + 3 * i + 2) rq = Returned resp
                  \<longrightarrow> invalid_captcha resp)
      \<and> (\<forall>rq resp. r_method rq = ''POST'' \<and> net (issued w + 3 * j + 2) rq = Returned resp
                  \<longrightarrow> \<not> invalid_captcha resp)
     \<longrightarrow> (\<exists>rq resp. r_method rq = ''POST'' \<and> net (issued w + 3 * j + 2) rq = Returned resp
            \<and> fst (post_with_captcha_retry cfg net solve url fb bound w) = Inr resp
            \<and> map method_url (sent (snd (post_with_captcha_retry cfg net solve url fb bound w)))
                = map method_url (sent w) @ concat (replicate (Suc j) (hc_round url))))
    \<and> ((\<forall>n rq resp. r_method rq = ''POST'' \<and> net n rq = Returned resp \<longrightarrow> invalid_captcha resp)
     \<longrightarrow> fst (post_with_captcha_retry cfg net solve url fb bound w)
            = Inl (captcha_failed_after bound)
         \<and> map method_url (sent (snd (post_with_captcha_retry cfg net solve url fb bound w)))
             = map method_url (sent w) @ concat (replicate (nat bound) (hc_round url))
         \<and> fst (case_status L cfg net solve court ctype cnum yr bench_code w)
             = Inl (captcha_failed_after 3)
         \<and> fst (case_status_by_party L cfg net solve court party_name yr bench_code
                  status_filter w)
             = Inl (captcha_failed_after 3)
         \<and> fst (court_orders L cfg net solve court ctype cnum yr bench_code w)
             = Inl (captcha_failed_after 3)
         \<and> fst (cause_list L today cfg net solve court civil bench_code causelist_date w)
             = Inl (captcha_failed_after 3))
    \<and> ((\<forall>n rq resp. r_method rq = ''POST'' \<and> net n rq = Returned resp \<longrightarrow> captcha_refused L resp)
        \<and> (\<forall>img. solve img \<noteq> [])
     \<longrightarrow> fst (search L cfg net solve search_text search_opt ctype bound tok w)
            = Inr SearchResult_default
         \<and> map method_url (sent (snd (search L cfg net solve search_text search_opt ctype bound
                                          tok w)))
             = map method_url (sent w) @ (''GET'', js_MAIN_PAGE_URL)
                 # concat (replicate (nat bound) js_round))"
proof (intro conjI impI)
  assume h: "int j < bound
      \<and> (\<forall>i<j. \<forall>rq resp. r_method rq = ''POST'' \<and> net (issued w + 3 * i + 2) rq = Returned resp
                  \<longrightarrow> invalid_captcha resp)
      \<and> (\<forall>rq resp. r_method rq = ''POST'' \<and> net (issued w + 3 * j + 2) rq = Returned resp
                  \<longrightarrow> \<not> invalid_captcha resp)"
  then have "int j < bound" by blast
  then have "j < length [0 ..< nat bound]" by simp
  then show "\<exists>rq resp. r_method rq = ''POST'' \<and> net (issued w + 3 * j + 2) rq = Returned resp
            \<and> fst (post_with_captcha_retry cfg net solve url fb bound w) = Inr resp
            \<and> map method_url (sent (snd (post_with_captcha_retry cfg net solve url fb bound w)))
                = map method_url (sent w) @ concat (replicate (Suc j) (hc_round url))"
    unfolding post_with_captcha_retry_def
    using captcha_attempts_retry_then_accept [OF assms, of j "[0 ..< nat bound]" w] h by blast
next
  assume rej: "\<forall>n rq resp. r_method rq = ''POST'' \<and> net n rq = Returned resp
                 \<longrightarrow> invalid_captcha resp"
  note all = post_with_captcha_retry_all_rejected [OF assms rej]
  show "fst (post_with_captcha_retry cfg net solve url fb bound w)
            = Inl (captcha_failed_after bound)"
    using all [of solve url fb bound w] by auto
  show "map method_url (sent (snd (post_with_captcha_retry cfg net solve url fb bound w)))
             = map method_url (sent w) @ concat (replicate (nat bound) (hc_round url))"
    using all [of solve url fb bound w] by auto
  have F: "fst (post_with_captcha_retry cfg net solve u fb 3 w) = Inl (captcha_failed_after 3)"
    for u fb
    using all [of solve u fb 3 w] by auto
  show "fst (case_status L cfg net solve court ctype cnum yr bench_code w)
             = Inl (captcha_failed_after 3)"
    unfolding case_status_def by (rule fst_case_Inl) (rule F)
  show "fst (case_status_by_party L cfg net solve court party_name yr bench_code status_filter w)
             = Inl (captcha_failed_after 3)"
    unfolding case_status_by_party_def by (rule fst_case_Inl) (rule F)
  show "fst (court_orders L cfg net solve court ctype cnum yr bench_code w)
             = Inl (captcha_failed_after 3)"
    unfolding court_orders_def by (rule fst_case_Inl) (rule F)
  show "fst (cause_list L today cfg net solve court civil bench_code causelist_date w)
             = Inl (captcha_failed_after 3)"
    unfolding cause_list_def Let_def by (rule fst_case_Inl) (rule F)
next
  assume h: "(\<forall>n rq resp. r_method rq = ''POST'' \<and> net n rq = Returned resp \<longrightarrow> captcha_refused L resp)
        \<and> (\<forall>img. solve img \<noteq> [])"
  then have r: "\<forall>n rq resp. r_method rq = ''POST'' \<and> net n rq = Returned resp \<longrightarrow> captcha_refused L resp"
    and s: "\<forall>img. solve img \<noteq> []" by blast+
  show "fst (search L cfg net solve search_text search_opt ctype bound tok w)
            = Inr SearchResult_default"
    using search_all_refused [OF assms r s] by blast
  show "map method_url (sent (snd (search L cfg net solve search_text search_opt ctype bound
                                          tok w)))
             = map method_url (sent w) @ (''GET'', js_MAIN_PAGE_URL)
                 # concat (replicate (nat bound) js_round)"
    using search_all_refused [OF assms r s] by blast
qed

theorem captcha_retry_policy_witness:
  "fst (post_with_captcha_retry fast_config once_rejecting_portal auto_solver hc_SHOW_RECORDS_URL
          (case_status_form (u ''26'') (u ''1'') (u ''134'') (u ''12345'') (u ''2024'')) 3 world0)
     = Inr accepted_response
   \<and> map method_url (sent (snd (post_with_captcha_retry fast_config once_rejecting_portal
          auto_solver hc_SHOW_RECORDS_URL
          (case_status_form (u ''26'') (u ''1'') (u ''134'') (u ''12345'') (u ''2024'')) 3 world0)))
     = hc_round hc_SHOW_RECORDS_URL @ hc_round hc_SHOW_RECORDS_URL
   \<and> fst (case_status (ascii_lib []) fast_config rejecting_portal auto_solver delhi
            (u ''134'') (u ''12345'') (u ''2024'') (u ''1'') world0)
     = Inl (captcha_failed_after 3)
   \<and> fst (search (ascii_lib []) fast_config refusing_portal auto_solver (u ''constitution'')
            (u ''PHRASE'') (u ''2'') 3 (JStr []) world0)
     = Inr SearchResult_default"
proof -
  let ?fb = "case_status_form (u ''26'') (u ''1'') (u ''134'') (u ''12345'') (u ''2024'')"
  have i0: "issued world0 = 0" "sent world0 = []"
    by (simp_all add: world0_def sent_def List.map_filter_simps)
  have rej1: "\<forall>i<1. \<forall>rq resp. r_method rq = ''POST''
                 \<and> once_rejecting_portal (issued world0 + 3 * i + 2) rq = Returned resp
               \<longrightarrow> invalid_captcha resp"
    using rejecting_portal_rejects by (auto simp: once_rejecting_portal_def i0)
  have acc1: "\<forall>rq resp. r_method rq = ''POST''
                 \<and> once_rejecting_portal (issued world0 + 3 * 1 + 2) rq = Returned resp
               \<longrightarrow> \<not> invalid_captcha resp"
    using accepted_response_valid by (auto simp: once_rejecting_portal_def i0)
  have "\<exists>rq resp. r_method rq = ''POST''
            \<and> once_rejecting_portal (issued world0 + 3 * 1 + 2) rq = Returned resp
            \<and> fst (post_with_captcha_retry fast_config once_rejecting_portal auto_solver
                     hc_SHOW_RECORDS_URL ?fb 3 world0) = Inr resp
            \<and> map method_url (sent (snd (post_with_captcha_retry fast_config
                     once_rejecting_portal auto_solver hc_SHOW_RECORDS_URL ?fb 3 world0)))
                = map method_url (sent world0)
                    @ concat (replicate (Suc 1) (hc_round hc_SHOW_RECORDS_URL))"
    using captcha_retry_policy [OF fast_config_retries once_rejecting_portal_answers,
            of 1 3 world0 auto_solver hc_SHOW_RECORDS_URL ?fb] rej1 acc1
    by simp
  then have a: "fst (post_with_captcha_retry fast_config once_rejecting_portal auto_solver
                     hc_SHOW_RECORDS_URL ?fb 3 world0) = Inr accepted_response"
    and b: "map method_url (sent (snd (post_with_captcha_retry fast_config
                     once_rejecting_portal auto_solver hc_SHOW_RECORDS_URL ?fb 3 world0)))
              = hc_round hc_SHOW_RECORDS_URL @ hc_round hc_SHOW_RECORDS_URL"
    by (auto simp: once_rejecting_portal_def i0)
  have c: "fst (case_status (ascii_lib []) fast_config rejecting_portal auto_solver delhi
            (u ''134'') (u ''12345'') (u ''2024'') (u ''1'') world0)
     = Inl (captcha_failed_after 3)"
    using captcha_retry_policy [OF fast_config_retries rejecting_portal_answers]
      rejecting_portal_rejects
    by blast
  have d: "fst (search (ascii_lib []) fast_config refusing_portal auto_solver (u ''constitution'')
            (u ''PHRASE'') (u ''2'') 3 (JStr []) world0)
     = Inr SearchResult_default"
    using captcha_retry_policy [OF fast_config_retries refusing_portal_answers]
      refusing_portal_refuses auto_solver_solves
    by blast
  show ?thesis using a b c d by simp
qed

text \<open>
  C1 as stated fails for the judgment search: against a portal that refuses three
  captchas it returns the empty result instead of raising, and it has loaded the main
  page once only.
\<close>

theorem search_returns_empty_counterexample:
  "fst (search (ascii_lib []) fast_config refusing_portal auto_solver (u ''constitution'')
          (u ''PHRASE'') (u ''2'') 3 (JStr []) world0)
     = Inr SearchResult_default
   \<and> fst (search (ascii_lib []) fast_config refusing_portal auto_solver (u ''constitution'')
          (u ''PHRASE'') (u ''2'') 3 (JStr []) world0)
     \<noteq> Inl (captcha_failed_after 3)
   \<and> map method_url (sent (snd (search (ascii_lib []) fast_config refusing_portal auto_solver
          (u ''constitution'') (u ''PHRASE'') (u ''2'') 3 (JStr []) world0)))
     = [(''GET'', js_MAIN_PAGE_URL),
        (''GET'', js_CAPTCHA_IMAGE_URL), (''POST'', js_CHECK_CAPTCHA_URL),
        (''GET'', js_CAPTCHA_IMAGE_URL), (''POST'', js_CHECK_CAPTCHA_URL),
        (''GET'', js_CAPTCHA_IMAGE_URL), (''POST'', js_CHECK_CAPTCHA_URL)]"
proof -
  have "sent world0 = []" by (simp add: world0_def sent_def List.map_filter_simps)
  moreover have "concat (replicate (nat 3) js_round)
     = [(''GET'', js_CAPTCHA_IMAGE_URL), (''POST'', js_CHECK_CAPTCHA_URL),
        (''GET'', js_CAPTCHA_IMAGE_URL), (''POST'', js_CHECK_CAPTCHA_URL),
        (''GET'', js_CAPTCHA_IMAGE_URL), (''POST'', js_CHECK_CAPTCHA_URL)]"
    by (simp add: js_round_def eval_nat_numeral)
  ultimately show ?thesis
    using search_all_refused [OF fast_config_retries refusing_portal_answers
            refusing_portal_refuses auto_solver_solves,
            of "u ''constitution''" "u ''PHRASE''" "u ''2''" 3 "JStr []" world0]
    by simp
qed

end
